theory Spec2Isabelle
  imports Complex_Main "HOL-Library.Word" "HOL-Library.AList"
begin

section \<open>JavaScript numbers\<close>

text \<open>
  A TypeScript \<open>number\<close> is an IEEE double. Finite values are modelled as exact reals
  (rounding and the sign of zero are left out); the three non-finite values are kept,
  because \<open>calculateMetrics\<close> divides without a guard when it computes the accuracy.
  Timestamps, coordinates and the other inputs are finite numbers, so they are plain reals;
  counters that the code only ever increments from \<open>0\<close> are naturals.
\<close>

datatype jsnum = Fin real | PosInf | NegInf | NaN

fun js_neg :: "jsnum \<Rightarrow> jsnum" where
  "js_neg (Fin x) = Fin (- x)"
| "js_neg PosInf = NegInf"
| "js_neg NegInf = PosInf"
| "js_neg NaN = NaN"

fun js_add :: "jsnum \<Rightarrow> jsnum \<Rightarrow> jsnum" where
  "js_add NaN _ = NaN"
| "js_add _ NaN = NaN"
| "js_add (Fin x) (Fin y) = Fin (x + y)"
| "js_add (Fin _) PosInf = PosInf"
| "js_add (Fin _) NegInf = NegInf"
| "js_add PosInf (Fin _) = PosInf"
| "js_add NegInf (Fin _) = NegInf"
| "js_add PosInf PosInf = PosInf"
| "js_add NegInf NegInf = NegInf"
| "js_add PosInf NegInf = NaN"
| "js_add NegInf PosInf = NaN"

definition js_sub :: "jsnum \<Rightarrow> jsnum \<Rightarrow> jsnum" where
  "js_sub a b = js_add a (js_neg b)"

text \<open>The sign of a number that is not \<open>NaN\<close>: \<open>1\<close>, \<open>0\<close> or \<open>-1\<close>.\<close>

fun js_sign :: "jsnum \<Rightarrow> real" where
  "js_sign (Fin x) = sgn x"
| "js_sign PosInf = 1"
| "js_sign NegInf = - 1"
| "js_sign NaN = 0"

definition signed_inf :: "real \<Rightarrow> jsnum" where
  "signed_inf s = (if s = 0 then NaN else if 0 < s then PosInf else NegInf)"

fun js_mul :: "jsnum \<Rightarrow> jsnum \<Rightarrow> jsnum" where
  "js_mul NaN _ = NaN"
| "js_mul _ NaN = NaN"
| "js_mul (Fin x) (Fin y) = Fin (x * y)"
| "js_mul a b = signed_inf (js_sign a * js_sign b)"

fun js_div :: "jsnum \<Rightarrow> jsnum \<Rightarrow> jsnum" where
  "js_div NaN _ = NaN"
| "js_div _ NaN = NaN"
| "js_div (Fin x) (Fin y) = (if y = 0 then signed_inf (sgn x) else Fin (x / y))"
| "js_div (Fin x) _ = Fin 0"
| "js_div a (Fin y) = (if y = 0 then a else signed_inf (js_sign a * sgn y))"
| "js_div _ _ = NaN"

text \<open>\<open>Math.max\<close> of two arguments: \<open>NaN\<close> if either is \<open>NaN\<close>.\<close>

fun Math_max :: "jsnum \<Rightarrow> jsnum \<Rightarrow> jsnum" where
  "Math_max NaN _ = NaN"
| "Math_max _ NaN = NaN"
| "Math_max (Fin x) (Fin y) = Fin (max x y)"
| "Math_max PosInf _ = PosInf"
| "Math_max _ PosInf = PosInf"
| "Math_max NegInf b = b"
| "Math_max a NegInf = a"

text \<open>\<open>Math.atan2\<close> on finite arguments.\<close>

definition Math_atan2 :: "real \<Rightarrow> real \<Rightarrow> real" where
  "Math_atan2 y x =
     (if 0 < x then arctan (y / x)
      else if x < 0 then (if 0 \<le> y then arctan (y / x) + pi else arctan (y / x) - pi)
      else if 0 < y then pi / 2
      else if y < 0 then - (pi / 2)
      else 0)"

section \<open>Data model (types.ts)\<close>

datatype key_type = Down | Up

record KeyEvent =
  ke_key :: string
  ke_code :: string
  ke_timestamp :: real
  ke_type :: key_type
  ke_isSynthetic :: "bool option"

record MouseEventData =
  me_x :: real
  me_y :: real
  me_timestamp :: real

record MouseMetrics =
  mm_avgVelocity :: real
  mm_maxVelocity :: real
  mm_angularVelocity :: real
  mm_clicks :: nat
  mm_tremorCount :: nat

record KeyMetrics =
  km_key :: string
  km_count :: nat
  km_avgDwellTime :: real
  km_errors :: nat

record SessionMetrics =
  sm_startTime :: real
  sm_endTime :: real
  sm_totalKeys :: nat
  sm_wpm :: real
  sm_cpm :: real
  sm_accuracy :: jsnum
  sm_avgDwellTime :: real
  sm_avgFlightTime :: real
  sm_backspaces :: nat
  sm_rhythmVariance :: real
  sm_topKeys :: "KeyMetrics list"
  sm_mouseMetrics :: MouseMetrics
  sm_privacyModeEnabled :: bool

text \<open>The exceptions the modelled code can raise.\<close>

datatype error = TypeError | InvalidCharacterError

section \<open>Feature extraction (utils/analytics.ts)\<close>

subsection \<open>hashString\<close>

text \<open>
  \<open>hash << 5\<close> converts to a signed 32-bit integer and shifts; the two additions that
  follow are ordinary number additions, so the running hash is an integer that is only
  folded to 32 bits by the final \<open>hash >>> 0\<close>.
\<close>

definition shl5 :: "int \<Rightarrow> int" where
  "shl5 h = sint (push_bit 5 (word_of_int h :: 32 word))"

definition hash_step :: "int \<Rightarrow> char \<Rightarrow> int" where
  "hash_step h c = (shl5 h + h) + of_char c"

definition hex_digit :: "nat \<Rightarrow> char" where
  "hex_digit d = (if d < 10 then char_of (48 + d) else char_of (87 + d))"

fun toString16 :: "nat \<Rightarrow> string" where
  "toString16 n = (if n < 16 then [hex_digit n] else toString16 (n div 16) @ [hex_digit (n mod 16)])"

declare toString16.simps [simp del]

definition hashString :: "string \<Rightarrow> string" where
  "hashString str =
     take 6 (toString16 (unat (word_of_int (foldl hash_step 5381 str) :: 32 word)))"

subsection \<open>calculateMouseMetrics\<close>

record mouse_acc =
  totalDist :: real
  maxVel :: real
  totalAngleChange :: real
  tremors :: nat
  prevAngle :: real

definition mouse_body :: "nat \<Rightarrow> MouseEventData \<Rightarrow> MouseEventData \<Rightarrow> mouse_acc \<Rightarrow> mouse_acc" where
  "mouse_body i p1 p2 a =
     (let dt = me_timestamp p2 - me_timestamp p1 in
      if dt = 0 then a
      else
        let dx = me_x p2 - me_x p1;
            dy = me_y p2 - me_y p1;
            dist = sqrt (dx * dx + dy * dy);
            vel = dist / dt;
            angle = Math_atan2 dy dx;
            dAngle = \<bar>angle - prevAngle a\<bar>
        in \<lparr> totalDist = totalDist a + dist,
             maxVel = (if maxVel a < vel then vel else maxVel a),
             totalAngleChange = (if 1 < i then totalAngleChange a + dAngle else totalAngleChange a),
             tremors = (if 1 < i \<and> 0.1 < dAngle \<and> dist < 5 then Suc (tremors a) else tremors a),
             prevAngle = angle \<rparr>)"

text \<open>The loop \<open>for (i = 1; i < events.length; i++)\<close> over the pairs \<open>events[i-1], events[i]\<close>.\<close>

fun mouse_loop :: "nat \<Rightarrow> MouseEventData list \<Rightarrow> mouse_acc \<Rightarrow> mouse_acc" where
  "mouse_loop i (p1 # p2 # rest) a = mouse_loop (Suc i) (p2 # rest) (mouse_body i p1 p2 a)"
| "mouse_loop i _ a = a"

definition calculateMouseMetrics :: "MouseEventData list \<Rightarrow> MouseMetrics" where
  "calculateMouseMetrics events =
     (if length events < 2 then
        \<lparr> mm_avgVelocity = 0, mm_maxVelocity = 0, mm_angularVelocity = 0,
          mm_clicks = 0, mm_tremorCount = 0 \<rparr>
      else
        let a = mouse_loop 1 events
                  \<lparr> totalDist = 0, maxVel = 0, totalAngleChange = 0, tremors = 0, prevAngle = 0 \<rparr>;
            totalTime = me_timestamp (last events) - me_timestamp (hd events)
        in \<lparr> mm_avgVelocity = (if 0 < totalTime then totalDist a / totalTime else 0),
             mm_maxVelocity = maxVel a,
             mm_angularVelocity = (if 0 < totalTime then totalAngleChange a / totalTime else 0),
             mm_clicks = 0,
             mm_tremorCount = tremors a \<rparr>)"

subsection \<open>calculateMetrics\<close>

text \<open>
  \<open>keyMap\<close> is a plain object used as a dictionary from key codes to per-key data. It is
  modelled as an association list in insertion order. The properties that every object
  inherits from \<open>Object.prototype\<close> are outside the model: key codes are assumed not to
  be one of \<open>inherited_names\<close>, for which the code finds an inherited value and makes no
  entry.
\<close>

definition inherited_names :: "string list" where
  "inherited_names =
     [''constructor'', ''__proto__'', ''hasOwnProperty'', ''isPrototypeOf'',
      ''propertyIsEnumerable'', ''toLocaleString'', ''toString'', ''valueOf'',
      ''__defineGetter__'', ''__defineSetter__'', ''__lookupGetter__'', ''__lookupSetter__'']"

record key_data =
  down :: "real option"
  totalDwell :: real
  count :: nat
  errors :: nat

type_synonym key_map = "(string \<times> key_data) list"

record loop_state =
  keyMap :: key_map
  flightTimes :: "real list"
  backspaceCount :: nat
  lastUpTimestamp :: real

text \<open>\<open>if (!keyMap[event.code]) keyMap[event.code] = {totalDwell: 0, count: 0, errors: 0}\<close>\<close>

definition ensure_entry :: "string \<Rightarrow> key_map \<Rightarrow> key_map" where
  "ensure_entry c km =
     (case map_of km c of
        None \<Rightarrow> AList.update c \<lparr> down = None, totalDwell = 0, count = 0, errors = 0 \<rparr> km
      | Some _ \<Rightarrow> km)"

text \<open>
  The Backspace branch reads \<open>keyMap['Backspace']\<close>, not \<open>keyMap[event.code]\<close>: reading
  \<open>.errors\<close> of a missing entry raises a TypeError.
\<close>

definition note_backspace :: "KeyEvent \<Rightarrow> key_map \<times> nat \<Rightarrow> error + key_map \<times> nat" where
  "note_backspace event kb =
     (case kb of (km, bc) \<Rightarrow>
        if ke_key event = ''Backspace'' \<and> ke_type event = Down then
          (case map_of km ''Backspace'' of
             None \<Rightarrow> Inl TypeError
           | Some d \<Rightarrow> Inr (AList.update ''Backspace'' (d\<lparr>errors := Suc (errors d)\<rparr>) km, Suc bc))
        else Inr (km, bc))"

text \<open>A pending press is tested by truthiness: \<open>undefined\<close> and \<open>0\<close> are both falsy.\<close>

definition truthy :: "real option \<Rightarrow> bool" where
  "truthy d = (case d of None \<Rightarrow> False | Some t \<Rightarrow> t \<noteq> 0)"

text \<open>
  The flight is an exact difference here. In doubles the difference of two timestamps that
  are not whole numbers can round up to 2000 and miss the sample; timestamps taken from
  \<open>Date.now()\<close> are whole milliseconds, whose differences are exact.
\<close>

definition on_down :: "KeyEvent \<Rightarrow> loop_state \<Rightarrow> error + loop_state" where
  "on_down event s =
     (case map_of (keyMap s) (ke_code event) of
        None \<Rightarrow> Inl TypeError
      | Some d \<Rightarrow>
          Inr (s\<lparr> keyMap := AList.update (ke_code event) (d\<lparr>down := Some (ke_timestamp event)\<rparr>) (keyMap s),
                 flightTimes :=
                   (if 0 < lastUpTimestamp s then
                      (let flight = ke_timestamp event - lastUpTimestamp s in
                       if flight < 2000 then flightTimes s @ [flight] else flightTimes s)
                    else flightTimes s) \<rparr>))"

definition on_up :: "KeyEvent \<Rightarrow> loop_state \<Rightarrow> error + loop_state" where
  "on_up event s =
     (case map_of (keyMap s) (ke_code event) of
        None \<Rightarrow> Inl TypeError
      | Some d \<Rightarrow>
          Inr (s\<lparr> lastUpTimestamp := ke_timestamp event,
                 keyMap :=
                   (if truthy (down d) then
                      (let dwell = ke_timestamp event - the (down d) in
                       AList.update (ke_code event)
                         (d\<lparr> totalDwell := totalDwell d + dwell, count := count d + 1, down := None \<rparr>)
                         (keyMap s))
                    else keyMap s) \<rparr>))"

definition forEach_body :: "loop_state \<Rightarrow> KeyEvent \<Rightarrow> error + loop_state" where
  "forEach_body s event =
     (case note_backspace event (ensure_entry (ke_code event) (keyMap s), backspaceCount s) of
        Inl e \<Rightarrow> Inl e
      | Inr (km, bc) \<Rightarrow>
          (let s1 = s\<lparr> keyMap := km, backspaceCount := bc \<rparr> in
           case ke_type event of Down \<Rightarrow> on_down event s1 | Up \<Rightarrow> on_up event s1))"

fun forEach :: "loop_state \<Rightarrow> KeyEvent list \<Rightarrow> error + loop_state" where
  "forEach s [] = Inr s"
| "forEach s (event # rest) =
     (case forEach_body s event of Inl e \<Rightarrow> Inl e | Inr s' \<Rightarrow> forEach s' rest)"

definition init_state :: loop_state where
  "init_state = \<lparr> keyMap = [], flightTimes = [], backspaceCount = 0, lastUpTimestamp = 0 \<rparr>"

text \<open>\<open>code.replace('Key', '')\<close> removes the first occurrence of \<open>Key\<close>, wherever it is.\<close>

fun replace_Key :: "string \<Rightarrow> string" where
  "replace_Key [] = []"
| "replace_Key (c # cs) =
     (if take 3 (c # cs) = ''Key'' then drop 3 (c # cs) else c # replace_Key cs)"

text \<open>
  \<open>Object.entries\<close> lists the keys that are array indices (canonical decimal numerals
  below \<open>2^32 - 1\<close>) first, in ascending numeric order, then the other keys in insertion
  order.
\<close>

definition is_digit :: "char \<Rightarrow> bool" where
  "is_digit c = (48 \<le> (of_char c :: nat) \<and> (of_char c :: nat) \<le> 57)"

definition parse_nat :: "string \<Rightarrow> nat" where
  "parse_nat s = foldl (\<lambda>n c. 10 * n + (of_char c - 48)) 0 s"

definition is_array_index :: "string \<Rightarrow> bool" where
  "is_array_index s =
     (s \<noteq> [] \<and> list_all is_digit s \<and> (s = ''0'' \<or> hd s \<noteq> CHR ''0'') \<and> parse_nat s < 2 ^ 32 - 1)"

definition Object_entries :: "key_map \<Rightarrow> key_map" where
  "Object_entries km =
     sort_key (\<lambda>p. parse_nat (fst p)) (filter (\<lambda>p. is_array_index (fst p)) km)
     @ filter (\<lambda>p. \<not> is_array_index (fst p)) km"

definition key_metrics :: "bool \<Rightarrow> string \<times> key_data \<Rightarrow> KeyMetrics" where
  "key_metrics privacyMode p =
     (case p of (code, data) \<Rightarrow>
        \<lparr> km_key = (if privacyMode then hashString code else replace_Key code),
          km_count = count data,
          km_avgDwellTime = (if 0 < count data then totalDwell data / real (count data) else 0),
          km_errors = errors data \<rparr>)"

definition average :: "real list \<Rightarrow> real" where
  "average xs = (if 0 < length xs then foldl (\<lambda>a b. a + b) 0 xs / real (length xs) else 0)"

text \<open>The population standard deviation of the flight times around their average.\<close>

definition variance :: "real list \<Rightarrow> real" where
  "variance xs =
     (if 0 < length xs then
        sqrt (foldl (\<lambda>sq n. sq + (n - average xs) ^ 2) 0 xs / real (length xs))
      else 0)"

definition accuracy_of :: "nat \<Rightarrow> nat \<Rightarrow> jsnum" where
  "accuracy_of backspaces totalKeys =
     Math_max (Fin 0)
       (js_sub (Fin 100) (js_mul (js_div (Fin (real backspaces)) (Fin (real totalKeys))) (Fin 100)))"

text \<open>
  \<open>now1\<close> and \<open>now2\<close> are the two readings of \<open>Date.now()\<close> taken when the key-event
  list is empty. The comparator \<open>b.count - a.count\<close> sorts by descending count, and
  \<open>Array.prototype.sort\<close> is stable.
\<close>

definition calculateMetrics ::
  "KeyEvent list \<Rightarrow> MouseEventData list \<Rightarrow> bool \<Rightarrow> real \<Rightarrow> real \<Rightarrow> error + SessionMetrics" where
  "calculateMetrics keyEvents mouseEvents privacyMode now1 now2 =
     (let mouseMetrics = calculateMouseMetrics mouseEvents in
      if length keyEvents = 0 then
        Inr \<lparr> sm_startTime = now1, sm_endTime = now2, sm_totalKeys = 0, sm_wpm = 0, sm_cpm = 0,
              sm_accuracy = Fin 100, sm_avgDwellTime = 0, sm_avgFlightTime = 0, sm_backspaces = 0,
              sm_rhythmVariance = 0, sm_topKeys = [], sm_mouseMetrics = mouseMetrics,
              sm_privacyModeEnabled = privacyMode \<rparr>
      else
        let startTime = ke_timestamp (hd keyEvents);
            endTime = ke_timestamp (last keyEvents);
            durationMinutes = (endTime - startTime) / 1000 / 60
        in case forEach init_state keyEvents of
             Inl e \<Rightarrow> Inl e
           | Inr s \<Rightarrow>
               (let totalKeys = length (filter (\<lambda>e. ke_type e = Down) keyEvents);
                    cpm = (if 0 < durationMinutes then real totalKeys / durationMinutes else 0);
                    wpm = cpm / 5;
                    allKeys = map (key_metrics privacyMode) (Object_entries (keyMap s));
                    validDwells = map km_avgDwellTime (filter (\<lambda>k. 0 < km_avgDwellTime k) allKeys);
                    globalAvgDwell = average validDwells;
                    globalAvgFlight = average (flightTimes s)
                in Inr \<lparr> sm_startTime = startTime, sm_endTime = endTime, sm_totalKeys = totalKeys,
                         sm_wpm = wpm, sm_cpm = cpm,
                         sm_accuracy = accuracy_of (backspaceCount s) totalKeys,
                         sm_avgDwellTime = globalAvgDwell, sm_avgFlightTime = globalAvgFlight,
                         sm_backspaces = backspaceCount s,
                         sm_rhythmVariance = variance (flightTimes s),
                         sm_topKeys = sort_key (\<lambda>k. - int (km_count k)) allKeys,
                         sm_mouseMetrics = mouseMetrics,
                         sm_privacyModeEnabled = privacyMode \<rparr>))"

section \<open>Persistence (services/persistence.ts)\<close>

subsection \<open>Activity log\<close>

text \<open>
  The text fields of a log entry are JavaScript strings: lists of UTF-16 code units.
  \<open>btoa\<close> accepts only code units up to 255, so the width of the characters matters.
\<close>

type_synonym jsstring = "16 word list"

record ActivityLog =
  al_timestamp :: real
  al_activity :: jsstring
  al_focusLevel :: jsstring
  al_riskScore :: real
  al_trustScore :: real
  al_description :: jsstring
  al_isEncrypted :: "bool option"

text \<open>
  The item under \<open>kbl_logs\<close> is only written by \<open>saveLog\<close>: it is either the JSON text of
  a log list or the Base64 encoding of such a text. The two texts are kept apart by a
  constructor instead of being spelled out; JSON text and Base64 text of a list decode to
  the list they were made from.
\<close>

datatype stored_text = PlainJson "ActivityLog list" | Base64Json "ActivityLog list"

text \<open>
  \<open>JSON.parse\<close>: the JSON text of an array starts with a bracket and parses back; its
  Base64 encoding starts with the letter W, which no JSON text does, so parsing it raises
  (\<open>None\<close>).
\<close>

fun JSON_parse :: "stored_text \<Rightarrow> ActivityLog list option" where
  "JSON_parse (PlainJson logs) = Some logs"
| "JSON_parse (Base64Json logs) = None"

text \<open>\<open>atob\<close> raises on a character outside the Base64 alphabet, such as a bracket.\<close>

fun atob :: "stored_text \<Rightarrow> stored_text option" where
  "atob (PlainJson logs) = None"
| "atob (Base64Json logs) = Some (PlainJson logs)"

text \<open>
  Whether the \<open>JSON.stringify\<close> text of a string holds a code unit above 255. Unpaired
  surrogates are written as ASCII escapes; every other code unit above 255 is copied.
\<close>

definition is_high_surrogate :: "16 word \<Rightarrow> bool" where
  "is_high_surrogate c = (0xD800 \<le> c \<and> c \<le> 0xDBFF)"

definition is_low_surrogate :: "16 word \<Rightarrow> bool" where
  "is_low_surrogate c = (0xDC00 \<le> c \<and> c \<le> 0xDFFF)"

fun json_wide :: "jsstring \<Rightarrow> bool" where
  "json_wide [] = False"
| "json_wide [c] = (255 < c \<and> \<not> is_high_surrogate c \<and> \<not> is_low_surrogate c)"
| "json_wide (c # d # cs) =
     (if is_high_surrogate c \<and> is_low_surrogate d then True
      else if is_high_surrogate c \<or> is_low_surrogate c then json_wide (d # cs)
      else 255 < c \<or> json_wide (d # cs))"

definition log_wide :: "ActivityLog \<Rightarrow> bool" where
  "log_wide l = (json_wide (al_activity l) \<or> json_wide (al_focusLevel l) \<or> json_wide (al_description l))"

definition encryptData :: "ActivityLog list \<Rightarrow> bool \<Rightarrow> error + stored_text" where
  "encryptData data enabled =
     (if \<not> enabled then Inr (PlainJson data)
      else if list_ex log_wide data then Inl InvalidCharacterError
      else Inr (Base64Json data))"

definition decryptData :: "stored_text option \<Rightarrow> bool \<Rightarrow> ActivityLog list option" where
  "decryptData data enabled =
     (case data of
        None \<Rightarrow> None
      | Some d \<Rightarrow>
          (case (if \<not> enabled then JSON_parse d
                 else (case atob d of None \<Rightarrow> None | Some decrypted \<Rightarrow> JSON_parse decrypted)) of
             Some v \<Rightarrow> Some v
           | None \<Rightarrow> JSON_parse d))"

definition getLogs :: "stored_text option \<Rightarrow> bool \<Rightarrow> ActivityLog list" where
  "getLogs storage encryptionEnabled =
     (case decryptData storage encryptionEnabled of None \<Rightarrow> [] | Some logs \<Rightarrow> logs)"

text \<open>\<open>saveLog\<close> returns the new content of the storage item, or the exception of \<open>btoa\<close>.\<close>

definition saveLog :: "ActivityLog \<Rightarrow> bool \<Rightarrow> stored_text option \<Rightarrow> error + stored_text option" where
  "saveLog logEntry encryptionEnabled storage =
     (let logs = getLogs storage encryptionEnabled;
          logToSave = logEntry\<lparr> al_isEncrypted := Some encryptionEnabled \<rparr>;
          updated = take 50 (logToSave # logs)
      in case encryptData updated encryptionEnabled of
           Inl e \<Rightarrow> Inl e
         | Inr item \<Rightarrow> Inr (Some item))"

text \<open>The log list a storage item was made from, whatever its encoding.\<close>

fun stored_logs :: "stored_text option \<Rightarrow> ActivityLog list" where
  "stored_logs None = []"
| "stored_logs (Some (PlainJson logs)) = logs"
| "stored_logs (Some (Base64Json logs)) = logs"

subsection \<open>User profile\<close>

record UserProfile =
  up_avgWpm :: real
  up_avgFlightTime :: real
  up_avgAccuracy :: jsnum
  up_avgMouseVelocity :: real
  up_totalSessions :: nat
  up_lastSeen :: real

text \<open>
  \<open>parseFloat(x.toFixed(d))\<close>: the nearest multiple of \<open>10^-d\<close>, a tie going away from
  zero; from \<open>10^21\<close> on \<open>toFixed\<close> prints the number itself.
\<close>

definition toFixed :: "nat \<Rightarrow> real \<Rightarrow> real" where
  "toFixed d x =
     (if 10 ^ 21 \<le> \<bar>x\<bar> then x
      else sgn x * (real_of_int \<lfloor>\<bar>x\<bar> * 10 ^ d + 1 / 2\<rfloor> / 10 ^ d))"

fun js_toFixed :: "nat \<Rightarrow> jsnum \<Rightarrow> jsnum" where
  "js_toFixed d (Fin x) = Fin (toFixed d x)"
| "js_toFixed d v = v"

text \<open>
  The profile is stored as JSON, which writes \<open>NaN\<close> and the infinities as \<open>null\<close>;
  \<open>null\<close> counts as \<open>0\<close> in the arithmetic of \<open>updateProfile\<close>.
\<close>

fun json_number :: "jsnum \<Rightarrow> jsnum" where
  "json_number (Fin x) = Fin x"
| "json_number v = Fin 0"

definition getProfile :: "UserProfile option \<Rightarrow> UserProfile option" where
  "getProfile storage =
     (case storage of
        None \<Rightarrow> None
      | Some p \<Rightarrow> Some (p\<lparr> up_avgAccuracy := json_number (up_avgAccuracy p) \<rparr>))"

text \<open>
  \<open>now1\<close> is the clock reading for the default profile, \<open>now2\<close> the one for \<open>lastSeen\<close>.
  The result is the returned profile, which is also the new storage item. The averages
  are divided exactly before they are rounded; the code divides in doubles, which can move
  a quotient that lies on a rounding tie to the other side when \<open>totalSessions\<close> is not 0.
\<close>

definition updateProfile :: "UserProfile option \<Rightarrow> SessionMetrics \<Rightarrow> real \<Rightarrow> real \<Rightarrow> UserProfile" where
  "updateProfile storage metrics now1 now2 =
     (let current = (case getProfile storage of
                       Some p \<Rightarrow> p
                     | None \<Rightarrow> \<lparr> up_avgWpm = 0, up_avgFlightTime = 0, up_avgAccuracy = Fin 100,
                                 up_avgMouseVelocity = 0, up_totalSessions = 0, up_lastSeen = now1 \<rparr>);
          n = real (up_totalSessions current);
          newTotal = up_totalSessions current + 1;
          newWpm = ((up_avgWpm current * n) + sm_wpm metrics) / real newTotal;
          newFlight = (if 0 < sm_avgFlightTime metrics
                       then ((up_avgFlightTime current * n) + sm_avgFlightTime metrics) / real newTotal
                       else up_avgFlightTime current);
          newAccuracy = js_div (js_add (js_mul (up_avgAccuracy current) (Fin n)) (sm_accuracy metrics))
                               (Fin (real newTotal));
          newMouseVel = ((up_avgMouseVelocity current * n) + mm_avgVelocity (sm_mouseMetrics metrics))
                        / real newTotal
      in \<lparr> up_avgWpm = toFixed 2 newWpm,
           up_avgFlightTime = toFixed 2 newFlight,
           up_avgAccuracy = js_toFixed 2 newAccuracy,
           up_avgMouseVelocity = toFixed 4 newMouseVel,
           up_totalSessions = newTotal,
           up_lastSeen = now2 \<rparr>)"

section \<open>Streaming transport (class WSClient)\<close>

datatype WSStatus = Idle | Connecting | Open | Closed | Error

datatype readyState = CONNECTING | OPEN | CLOSING | CLOSED

text \<open>
  The fields of the class, followed by what the client does to its surroundings: the
  sockets it has created (a socket is its index in \<open>sockets\<close>), the calls of the two
  observers, the \<open>setTimeout\<close> callbacks of \<open>scheduleReconnect\<close> with their delay and
  whether they are still pending, the payloads handed to \<open>ws.send\<close> without an exception,
  and the number of \<open>connect()\<close> calls made by those callbacks.
\<close>

record ('m, 'r) WSClient =
  ws :: "nat option"
  reconnectAttempts :: nat
  shouldReconnect :: bool
  sendQueue :: "'m list"
  sockets :: "readyState list"
  statuses :: "WSStatus list"
  received :: "'r list"
  timers :: "(real \<times> bool) list"
  transmitted :: "(nat \<times> 'm) list"
  reconnects :: nat

definition new_client :: "('m, 'r) WSClient" where
  "new_client = \<lparr> ws = None, reconnectAttempts = 0, shouldReconnect = True, sendQueue = [],
                   sockets = [], statuses = [], received = [], timers = [], transmitted = [],
                   reconnects = 0 \<rparr>"

definition onStatus :: "WSStatus \<Rightarrow> ('m, 'r) WSClient \<Rightarrow> ('m, 'r) WSClient" where
  "onStatus st s = s\<lparr> statuses := statuses s @ [st] \<rparr>"

definition ready :: "('m, 'r) WSClient \<Rightarrow> nat \<Rightarrow> readyState option" where
  "ready s i = (if i < length (sockets s) then Some (sockets s ! i) else None)"

text \<open>\<open>rnd\<close> is the value of \<open>Math.random()\<close>.\<close>

definition scheduleReconnect :: "real \<Rightarrow> ('m, 'r) WSClient \<Rightarrow> ('m, 'r) WSClient" where
  "scheduleReconnect rnd s =
     (let attempts = reconnectAttempts s + 1;
          base = 500;
          mx = 8000;
          jitter = rnd * 250;
          delay = min mx (base * 2 ^ attempts) + jitter
      in s\<lparr> reconnectAttempts := attempts, timers := timers s @ [(delay, True)] \<rparr>)"

text \<open>\<open>throws\<close> says whether \<open>new WebSocket(url)\<close> raises.\<close>

definition connect :: "bool \<Rightarrow> real \<Rightarrow> ('m, 'r) WSClient \<Rightarrow> ('m, 'r) WSClient" where
  "connect throws rnd s =
     (if (case ws s of None \<Rightarrow> False | Some i \<Rightarrow> ready s i = Some OPEN \<or> ready s i = Some CONNECTING)
      then s
      else
        let s1 = onStatus Connecting s in
        if throws then scheduleReconnect rnd (onStatus Error s1)
        else s1\<lparr> sockets := sockets s1 @ [CONNECTING], ws := Some (length (sockets s1)) \<rparr>)"

text \<open>\<open>ws.close()\<close> moves a socket that is connecting or open to the closing state.\<close>

definition close_socket :: "nat \<Rightarrow> readyState list \<Rightarrow> readyState list" where
  "close_socket i socks =
     (if i < length socks \<and> (socks ! i = CONNECTING \<or> socks ! i = OPEN) then socks[i := CLOSING]
      else socks)"

definition disconnect :: "('m, 'r) WSClient \<Rightarrow> ('m, 'r) WSClient" where
  "disconnect s =
     (let s1 = s\<lparr> shouldReconnect := False \<rparr>;
          s2 = (case ws s1 of
                  None \<Rightarrow> s1
                | Some i \<Rightarrow> s1\<lparr> sockets := close_socket i (sockets s1), ws := None \<rparr>)
      in onStatus Closed s2)"

text \<open>
  \<open>bad p\<close> says that \<open>JSON.stringify(p)\<close> raises (a cyclic payload, a BigInt). \<open>ws.send\<close>
  itself raises on a socket that is still connecting.
\<close>

definition send :: "('m \<Rightarrow> bool) \<Rightarrow> 'm \<Rightarrow> ('m, 'r) WSClient \<Rightarrow> ('m, 'r) WSClient" where
  "send bad payload s =
     (case ws s of
        None \<Rightarrow> s\<lparr> sendQueue := sendQueue s @ [payload] \<rparr>
      | Some i \<Rightarrow>
          if ready s i \<noteq> Some OPEN then s\<lparr> sendQueue := sendQueue s @ [payload] \<rparr>
          else if bad payload then s\<lparr> sendQueue := sendQueue s @ [payload] \<rparr>
          else s\<lparr> transmitted := transmitted s @ [(i, payload)] \<rparr>)"

text \<open>
  The loop of \<open>flushQueue\<close> over the items taken out of the queue. With no socket,
  \<open>this.ws?.send(...)\<close> does nothing and raises nothing.
\<close>

fun flush_loop :: "('m \<Rightarrow> bool) \<Rightarrow> 'm list \<Rightarrow> ('m, 'r) WSClient \<Rightarrow> ('m, 'r) WSClient" where
  "flush_loop bad [] s = s"
| "flush_loop bad (p # items) s =
     (case ws s of
        None \<Rightarrow> flush_loop bad items s
      | Some i \<Rightarrow>
          if bad p \<or> ready s i = Some CONNECTING then s\<lparr> sendQueue := sendQueue s @ [p] \<rparr>
          else flush_loop bad items (s\<lparr> transmitted := transmitted s @ [(i, p)] \<rparr>))"

definition flushQueue :: "('m \<Rightarrow> bool) \<Rightarrow> ('m, 'r) WSClient \<Rightarrow> ('m, 'r) WSClient" where
  "flushQueue bad s = flush_loop bad (sendQueue s) (s\<lparr> sendQueue := [] \<rparr>)"

subsection \<open>Handlers and the step function\<close>

text \<open>An inbound message: text that does not parse, a value without \<open>ok\<close>, or a verdict.\<close>

datatype 'r inbound = Unparsable | NotOk | Verdict 'r

definition onopen :: "('m \<Rightarrow> bool) \<Rightarrow> ('m, 'r) WSClient \<Rightarrow> ('m, 'r) WSClient" where
  "onopen bad s = flushQueue bad ((onStatus Open s)\<lparr> reconnectAttempts := 0 \<rparr>)"

definition onmessage :: "'r inbound \<Rightarrow> ('m, 'r) WSClient \<Rightarrow> ('m, 'r) WSClient" where
  "onmessage m s =
     (case m of
        Unparsable \<Rightarrow> onStatus Error s
      | NotOk \<Rightarrow> s
      | Verdict r \<Rightarrow> s\<lparr> received := received s @ [r] \<rparr>)"

definition onerror :: "('m, 'r) WSClient \<Rightarrow> ('m, 'r) WSClient" where
  "onerror s = onStatus Error s"

definition onclose :: "real \<Rightarrow> ('m, 'r) WSClient \<Rightarrow> ('m, 'r) WSClient" where
  "onclose rnd s =
     (let s1 = onStatus Closed s in
      if shouldReconnect s1 then scheduleReconnect rnd s1 else s1)"

text \<open>The callback given to \<open>setTimeout\<close>: \<open>if (this.shouldReconnect) this.connect()\<close>.\<close>

definition timer_callback :: "bool \<Rightarrow> real \<Rightarrow> ('m, 'r) WSClient \<Rightarrow> ('m, 'r) WSClient" where
  "timer_callback throws rnd s =
     (if shouldReconnect s then connect throws rnd (s\<lparr> reconnects := reconnects s + 1 \<rparr>) else s)"

text \<open>
  What can happen to a client: the three public methods are called, a socket it created
  fires one of its four events, or a pending timer fires. Events carry what the
  surroundings decide (whether the constructor raises, the random number). A socket event
  that the socket's state rules out, and a timer that is not pending, leave the client as
  it is.
\<close>

datatype ('m, 'r) event =
    Call_connect bool real
  | Call_disconnect
  | Call_send 'm
  | Sock_open nat
  | Sock_message nat "'r inbound"
  | Sock_error nat
  | Sock_close nat real
  | Timer_fire nat bool real

fun step :: "('m \<Rightarrow> bool) \<Rightarrow> ('m, 'r) WSClient \<Rightarrow> ('m, 'r) event \<Rightarrow> ('m, 'r) WSClient" where
  "step bad s (Call_connect throws rnd) = connect throws rnd s"
| "step bad s Call_disconnect = disconnect s"
| "step bad s (Call_send p) = send bad p s"
| "step bad s (Sock_open i) =
     (if ready s i = Some CONNECTING then onopen bad (s\<lparr> sockets := (sockets s)[i := OPEN] \<rparr>) else s)"
| "step bad s (Sock_message i m) =
     (if ready s i = Some OPEN then onmessage m s else s)"
| "step bad s (Sock_error i) =
     (if i < length (sockets s) \<and> ready s i \<noteq> Some CLOSED then onerror s else s)"
| "step bad s (Sock_close i rnd) =
     (if i < length (sockets s) \<and> ready s i \<noteq> Some CLOSED
      then onclose rnd (s\<lparr> sockets := (sockets s)[i := CLOSED] \<rparr>) else s)"
| "step bad s (Timer_fire j throws rnd) =
     (if j < length (timers s) \<and> snd (timers s ! j)
      then timer_callback throws rnd (s\<lparr> timers := (timers s)[j := (fst (timers s ! j), False)] \<rparr>)
      else s)"

definition run :: "('m \<Rightarrow> bool) \<Rightarrow> ('m, 'r) WSClient \<Rightarrow> ('m, 'r) event list \<Rightarrow> ('m, 'r) WSClient" where
  "run bad s es = foldl (step bad) s es"

text \<open>The random numbers an event carries lie in \<open>[0, 1)\<close>, as \<open>Math.random()\<close> promises.\<close>

fun random_ok :: "('m, 'r) event \<Rightarrow> bool" where
  "random_ok (Call_connect throws rnd) = (0 \<le> rnd \<and> rnd < 1)"
| "random_ok (Sock_close i rnd) = (0 \<le> rnd \<and> rnd < 1)"
| "random_ok (Timer_fire j throws rnd) = (0 \<le> rnd \<and> rnd < 1)"
| "random_ok _ = True"

fun is_open_event :: "('m, 'r) event \<Rightarrow> bool" where
  "is_open_event (Sock_open i) = True"
| "is_open_event _ = False"

fun is_connect_call :: "('m, 'r) event \<Rightarrow> bool" where
  "is_connect_call (Call_connect throws rnd) = True"
| "is_connect_call _ = False"

section \<open>Flight gaps, as the loop is meant to collect them\<close>

text \<open>
  \<open>last_up u ks\<close> is the timestamp of the last release in \<open>ks\<close>, or \<open>u\<close> if there is
  none. \<open>flight_samples u ks\<close> lists, for each press in \<open>ks\<close>, its gap to the release
  before it (\<open>u\<close> before the first release of \<open>ks\<close>), provided that release has a positive
  timestamp and the gap is below 2000 ms.
\<close>

fun last_up :: "real \<Rightarrow> KeyEvent list \<Rightarrow> real" where
  "last_up u [] = u"
| "last_up u (e # es) = last_up (case ke_type e of Up \<Rightarrow> ke_timestamp e | Down \<Rightarrow> u) es"

fun flight_samples :: "real \<Rightarrow> KeyEvent list \<Rightarrow> real list" where
  "flight_samples u [] = []"
| "flight_samples u (e # es) =
     (case ke_type e of
        Up \<Rightarrow> flight_samples (ke_timestamp e) es
      | Down \<Rightarrow>
          (if 0 < u \<and> ke_timestamp e - u < 2000 then [ke_timestamp e - u] else [])
          @ flight_samples u es)"

section \<open>Backoff delays and readable storage\<close>

text \<open>The interval the backoff delay of attempt \<open>k\<close> is to lie in, in milliseconds.\<close>

definition delay_ok :: "nat \<Rightarrow> real \<Rightarrow> bool" where
  "delay_ok k d = (min 8000 (500 * 2 ^ k) \<le> d \<and> d \<le> min 8000 (500 * 2 ^ k) + 250)"

text \<open>How one call of \<open>scheduleReconnect\<close>, or none, changes the counter and the timers.\<close>

definition sched :: "('m, 'r) WSClient \<Rightarrow> ('m, 'r) WSClient \<Rightarrow> bool" where
  "sched s s' =
     ((map fst (timers s') = map fst (timers s) \<and> reconnectAttempts s' = reconnectAttempts s)
    \<or> (\<exists>d. map fst (timers s') = map fst (timers s) @ [d]
           \<and> reconnectAttempts s' = reconnectAttempts s + 1
           \<and> delay_ok (reconnectAttempts s + 1) d))"

text \<open>
  Whether \<open>getLogs\<close> can read the storage item under the given flag: only a Base64 item
  read with the flag off cannot be read.
\<close>

definition decodable :: "stored_text option \<Rightarrow> bool \<Rightarrow> bool" where
  "decodable storage enabled =
     (case storage of Some (Base64Json logs) \<Rightarrow> enabled | _ \<Rightarrow> True)"

section \<open>Completed presses, as the loop is meant to count them\<close>

text \<open>
  \<open>completed_pairs c pending ks\<close> counts the releases of the key code \<open>c\<close> in \<open>ks\<close> that
  follow a press of \<open>c\<close> with no other release of \<open>c\<close> in between; \<open>pending\<close> says whether
  a press of \<open>c\<close> is waiting when \<open>ks\<close> starts. \<open>entry_count\<close> and \<open>entry_pending\<close> read the
  same two things off the key map of the loop, and \<open>display_key\<close> is the label an entry of
  \<open>topKeys\<close> gets.
\<close>

fun completed_pairs :: "string \<Rightarrow> bool \<Rightarrow> KeyEvent list \<Rightarrow> nat" where
  "completed_pairs c pending [] = 0"
| "completed_pairs c pending (e # es) =
     (if ke_code e = c then
        (case ke_type e of
           Down \<Rightarrow> completed_pairs c True es
         | Up \<Rightarrow> (if pending then 1 else 0) + completed_pairs c False es)
      else completed_pairs c pending es)"

definition entry_count :: "key_map \<Rightarrow> string \<Rightarrow> nat" where
  "entry_count km c = (case map_of km c of None \<Rightarrow> 0 | Some d \<Rightarrow> count d)"

definition entry_pending :: "key_map \<Rightarrow> string \<Rightarrow> bool" where
  "entry_pending km c = (case map_of km c of None \<Rightarrow> False | Some d \<Rightarrow> truthy (down d))"

definition display_key :: "bool \<Rightarrow> string \<Rightarrow> string" where
  "display_key privacyMode c = (if privacyMode then hashString c else replace_Key c)"

section \<open>Inputs used in the examples\<close>

definition key_event :: "string \<Rightarrow> string \<Rightarrow> real \<Rightarrow> key_type \<Rightarrow> KeyEvent" where
  "key_event k c t ty =
     \<lparr> ke_key = k, ke_code = c, ke_timestamp = t, ke_type = ty, ke_isSynthetic = None \<rparr>"

definition no_mouse :: MouseMetrics where
  "no_mouse = \<lparr> mm_avgVelocity = 0, mm_maxVelocity = 0, mm_angularVelocity = 0,
                 mm_clicks = 0, mm_tremorCount = 0 \<rparr>"

definition key_entry :: "string \<Rightarrow> nat \<Rightarrow> real \<Rightarrow> nat \<Rightarrow> KeyMetrics" where
  "key_entry k n d e = \<lparr> km_key = k, km_count = n, km_avgDwellTime = d, km_errors = e \<rparr>"

definition log_entry :: "real \<Rightarrow> jsstring \<Rightarrow> bool option \<Rightarrow> ActivityLog" where
  "log_entry t a enc =
     \<lparr> al_timestamp = t, al_activity = a, al_focusLevel = [0x48], al_riskScore = 10,
       al_trustScore = 90, al_description = [], al_isEncrypted = enc \<rparr>"

definition session :: "real \<Rightarrow> jsnum \<Rightarrow> real \<Rightarrow> real \<Rightarrow> SessionMetrics" where
  "session wpm acc flight vel =
     \<lparr> sm_startTime = 0, sm_endTime = 210, sm_totalKeys = 2, sm_wpm = wpm, sm_cpm = 5 * wpm,
       sm_accuracy = acc, sm_avgDwellTime = 60, sm_avgFlightTime = flight, sm_backspaces = 0,
       sm_rhythmVariance = 0, sm_topKeys = [],
       sm_mouseMetrics = no_mouse\<lparr> mm_avgVelocity := vel \<rparr>, sm_privacyModeEnabled = False \<rparr>"

section \<open>Properties of the feature extraction\<close>

lemmas metrics_eval =
  key_event_def no_mouse_def key_entry_def calculateMetrics_def calculateMouseMetrics_def
  forEach_body_def ensure_entry_def note_backspace_def on_down_def on_up_def truthy_def
  init_state_def Object_entries_def is_array_index_def is_digit_def parse_nat_def
  key_metrics_def average_def variance_def accuracy_of_def js_sub_def signed_inf_def Let_def

text \<open>
  Claim C1. For the key events down A at 0, up A at 80, down B at 150, up B at 210, with
  privacy mode off, \<open>calculateMetrics\<close> is to return dwell(A) = 80 ms, dwell(B) = 60 ms,
  one flight sample of 70 ms, \<open>totalKeys\<close> = 2, \<open>rhythmVariance\<close> = 0 and \<open>accuracy\<close> = 100.
  The code returns all of these but the dwell time of A: the press of A is stored with the
  timestamp 0, the release tests the stored timestamp for truthiness, 0 is falsy, and the
  press is taken for missing. Key A ends with count 0 and average dwell 0 instead of 80,
  and the session's average dwell is 60.
\<close>

theorem scenario_press_at_zero_unpaired:
  "calculateMetrics
     [key_event ''a'' ''KeyA'' 0 Down, key_event ''a'' ''KeyA'' 80 Up,
      key_event ''b'' ''KeyB'' 150 Down, key_event ''b'' ''KeyB'' 210 Up] [] False now1 now2
   = Inr \<lparr> sm_startTime = 0, sm_endTime = 210, sm_totalKeys = 2, sm_wpm = 800 / 7,
           sm_cpm = 4000 / 7, sm_accuracy = Fin 100, sm_avgDwellTime = 60, sm_avgFlightTime = 70,
           sm_backspaces = 0, sm_rhythmVariance = 0,
           sm_topKeys = [key_entry ''B'' 1 60 0, key_entry ''A'' 0 0 0],
           sm_mouseMetrics = no_mouse, sm_privacyModeEnabled = False \<rparr>"
  by (simp add: metrics_eval)

text \<open>
  Claim C2. The accuracy is to be \<open>max(0, 100 - 100 * backspaces / totalKeys)\<close>, and 100
  whenever \<open>totalKeys\<close> is 0, also for a non-empty input that holds only releases. The code
  guards the empty list only: for a single release it divides 0 by 0 and the accuracy is
  \<open>NaN\<close>.
\<close>

theorem only_up_events_accuracy_NaN:
  "calculateMetrics [key_event ''a'' ''KeyA'' 100 Up] [] False now1 now2
   = Inr \<lparr> sm_startTime = 100, sm_endTime = 100, sm_totalKeys = 0, sm_wpm = 0,
           sm_cpm = 0, sm_accuracy = NaN, sm_avgDwellTime = 0, sm_avgFlightTime = 0,
           sm_backspaces = 0, sm_rhythmVariance = 0,
           sm_topKeys = [key_entry ''A'' 0 0 0],
           sm_mouseMetrics = no_mouse, sm_privacyModeEnabled = False \<rparr>"
  by (simp add: metrics_eval)

text \<open>
  Claim C3. \<open>calculateMetrics\<close> is to return a value for every input, also for an event
  whose key label is Backspace while its code is another string. The code counts the
  correction on \<open>keyMap['Backspace']\<close>; when no event with the code Backspace came before,
  that entry is missing and the call raises a TypeError, whatever the mouse events and
  the privacy flag.
\<close>

theorem backspace_label_other_code_raises:
  "calculateMetrics [key_event ''Backspace'' ''NumpadBackspace'' 100 Down]
     mouseEvents privacyMode now1 now2
   = Inl TypeError"
  by (simp add: metrics_eval)

subsection \<open>Flight times\<close>

lemma forEach_body_flights:
  assumes "forEach_body s e = Inr s'"
  shows "flightTimes s' = flightTimes s @ flight_samples (lastUpTimestamp s) [e]
       \<and> lastUpTimestamp s' = last_up (lastUpTimestamp s) [e]"
  using assms
  by (auto simp: forEach_body_def on_down_def on_up_def Let_def
           split: sum.splits prod.splits key_type.splits option.splits if_splits)

lemma last_up_append: "last_up u (xs @ ys) = last_up (last_up u xs) ys"
  by (induction xs arbitrary: u) auto

lemma flight_samples_append:
  "flight_samples u (xs @ ys) = flight_samples u xs @ flight_samples (last_up u xs) ys"
  by (induction xs arbitrary: u) (auto split: key_type.splits)

lemma forEach_flights:
  "forEach s ks = Inr s' \<Longrightarrow>
     flightTimes s' = flightTimes s @ flight_samples (lastUpTimestamp s) ks
   \<and> lastUpTimestamp s' = last_up (lastUpTimestamp s) ks"
proof (induction ks arbitrary: s)
  case Nil
  then show ?case by simp
next
  case (Cons e ks)
  then obtain s1 where b: "forEach_body s e = Inr s1" and r: "forEach s1 ks = Inr s'"
    by (auto split: sum.splits)
  from forEach_body_flights [OF b] Cons.IH [OF r] show ?case
    by (auto split: key_type.splits)
qed

lemma flight_samples_below: "x \<in> set (flight_samples u ks) \<Longrightarrow> x < 2000"
  by (induction ks arbitrary: u) (auto split: key_type.splits if_splits)

lemma calculateMetrics_flights:
  assumes "calculateMetrics ks mouse pm now1 now2 = Inr sm" and "ks \<noteq> []"
  shows "sm_avgFlightTime sm = average (flight_samples 0 ks)
       \<and> sm_rhythmVariance sm = variance (flight_samples 0 ks)"
proof -
  from assms obtain s where f: "forEach init_state ks = Inr s"
    and sm: "sm_avgFlightTime sm = average (flightTimes s)"
            "sm_rhythmVariance sm = variance (flightTimes s)"
    by (auto simp: calculateMetrics_def Let_def split: sum.splits if_splits)
  from forEach_flights [OF f] have "flightTimes s = flight_samples 0 ks"
    by (simp add: init_state_def)
  with sm show ?thesis by simp
qed

text \<open>
  Take any press \<open>d\<close> in a key-event list \<open>pre @ d # post\<close> on which \<open>calculateMetrics\<close>
  returns, let \<open>u\<close> be the timestamp of the last release before it (0 if there is none) and
  \<open>gap\<close> the press's timestamp minus \<open>u\<close>. Both \<open>avgFlightTime\<close> and \<open>rhythmVariance\<close> are
  computed from one list of samples: the samples of \<open>pre\<close>, then the sample of \<open>d\<close>, then
  the samples of \<open>post\<close>. A gap of 2000 ms or more gives no sample; a gap of 1999 ms after
  a release with a positive timestamp is a sample; no sample reaches 2000 ms.
\<close>

lemma flight_gap_threshold:
  assumes "calculateMetrics (pre @ d # post) mouse pm now1 now2 = Inr sm"
    and "ke_type d = Down"
    and "u = last_up 0 pre"
    and "gap = ke_timestamp d - u"
  shows "(2000 \<le> gap \<longrightarrow>
            sm_avgFlightTime sm = average (flight_samples 0 pre @ flight_samples u post)
          \<and> sm_rhythmVariance sm = variance (flight_samples 0 pre @ flight_samples u post))
       \<and> (gap = 1999 \<and> 0 < u \<longrightarrow>
            sm_avgFlightTime sm = average (flight_samples 0 pre @ [1999] @ flight_samples u post)
          \<and> sm_rhythmVariance sm = variance (flight_samples 0 pre @ [1999] @ flight_samples u post))
       \<and> (\<forall>x \<in> set (flight_samples 0 pre @ flight_samples u post). x < 2000)"
proof -
  define F where "F = flight_samples 0 (pre @ d # post)"
  have F: "F = flight_samples 0 pre
               @ (if 0 < u \<and> gap < 2000 then [gap] else []) @ flight_samples u post"
    using assms(2-4) by (simp add: F_def flight_samples_append)
  have "pre @ d # post \<noteq> []" by simp
  from calculateMetrics_flights [OF assms(1) this]
  have sm: "sm_avgFlightTime sm = average F" "sm_rhythmVariance sm = variance F"
    by (simp_all add: F_def)
  have a: "2000 \<le> gap \<longrightarrow> F = flight_samples 0 pre @ flight_samples u post"
    using F by simp
  have b: "gap = 1999 \<and> 0 < u \<longrightarrow> F = flight_samples 0 pre @ [1999] @ flight_samples u post"
    using F by simp
  have c: "\<forall>x \<in> set (flight_samples 0 pre @ flight_samples u post). x < 2000"
    using flight_samples_below by auto
  from sm a b c show ?thesis by simp
qed

text \<open>
  Three presses after releases: the gaps are 1999 ms, 2000 ms and 1 ms. The samples are
  1999 and 1, with average 1000 and standard deviation 999.
\<close>

lemma sqrt_998001: "sqrt 998001 = 999"
  using real_sqrt_abs [of 999] by simp

lemma flight_samples_example:
  "calculateMetrics
     [key_event ''a'' ''KeyA'' 1 Up, key_event ''b'' ''KeyB'' 2000 Down,
      key_event ''b'' ''KeyB'' 2100 Up, key_event ''c'' ''KeyC'' 4100 Down,
      key_event ''c'' ''KeyC'' 4200 Up, key_event ''d'' ''KeyD'' 4201 Down] [] False 0 0
   = Inr \<lparr> sm_startTime = 1, sm_endTime = 4201, sm_totalKeys = 3, sm_wpm = 60 / 7,
           sm_cpm = 300 / 7, sm_accuracy = Fin 100, sm_avgDwellTime = 100,
           sm_avgFlightTime = 1000, sm_backspaces = 0, sm_rhythmVariance = 999,
           sm_topKeys = [key_entry ''B'' 1 100 0, key_entry ''C'' 1 100 0,
                         key_entry ''A'' 0 0 0, key_entry ''D'' 0 0 0],
           sm_mouseMetrics = no_mouse, sm_privacyModeEnabled = False \<rparr>"
  by (simp add: metrics_eval sqrt_998001)

text \<open>
  Claim C7. A flight gap of 2000 ms or more is to contribute to neither \<open>avgFlightTime\<close>
  nor \<open>rhythmVariance\<close>, and a gap of exactly 1999 ms is to be included in both. The first
  half holds (\<open>flight_gap_threshold\<close>). The second half fails after a release at timestamp
  0: the loop keeps the last release in a variable that starts at 0 and measures a flight
  only when that variable is positive, so the release is taken for missing and the gap of
  1999 ms gives no sample; the average is 0 where it is to be 1999. After a release at
  timestamp 1 the same gap is sampled.
\<close>

theorem release_at_zero_gap_not_sampled:
  "calculateMetrics [key_event ''a'' ''KeyA'' 0 Up, key_event ''b'' ''KeyB'' 1999 Down] [] False 0 0
   = Inr \<lparr> sm_startTime = 0, sm_endTime = 1999, sm_totalKeys = 1, sm_wpm = 12000 / 1999,
           sm_cpm = 60000 / 1999, sm_accuracy = Fin 100, sm_avgDwellTime = 0,
           sm_avgFlightTime = 0, sm_backspaces = 0, sm_rhythmVariance = 0,
           sm_topKeys = [key_entry ''A'' 0 0 0, key_entry ''B'' 0 0 0],
           sm_mouseMetrics = no_mouse, sm_privacyModeEnabled = False \<rparr>
 \<and> calculateMetrics [key_event ''a'' ''KeyA'' 1 Up, key_event ''b'' ''KeyB'' 2000 Down] [] False 0 0
   = Inr \<lparr> sm_startTime = 1, sm_endTime = 2000, sm_totalKeys = 1, sm_wpm = 12000 / 1999,
           sm_cpm = 60000 / 1999, sm_accuracy = Fin 100, sm_avgDwellTime = 0,
           sm_avgFlightTime = 1999, sm_backspaces = 0, sm_rhythmVariance = 0,
           sm_topKeys = [key_entry ''A'' 0 0 0, key_entry ''B'' 0 0 0],
           sm_mouseMetrics = no_mouse, sm_privacyModeEnabled = False \<rparr>"
  by (simp add: metrics_eval)

subsection \<open>Counts per key code\<close>

lemma update_present:
  "map_of km k = Some d \<Longrightarrow> fst ` set (AList.update k v km) = fst ` set km"
  by (auto simp: dom_update dest: map_of_SomeD intro: rev_image_eqI)

lemma ensure_entry_view:
  "entry_count (ensure_entry c km) k = entry_count km k
 \<and> entry_pending (ensure_entry c km) k = entry_pending km k
 \<and> fst ` set (ensure_entry c km) = insert c (fst ` set km)
 \<and> (distinct (map fst km) \<longrightarrow> distinct (map fst (ensure_entry c km)))
 \<and> map_of (ensure_entry c km) c \<noteq> None"
proof (cases "map_of km c")
  case None
  then show ?thesis
    by (auto simp: ensure_entry_def entry_count_def entry_pending_def truthy_def
        update_conv' dom_update distinct_update)
next
  case (Some d)
  then have "c \<in> fst ` set km" by (auto dest: map_of_SomeD intro: rev_image_eqI)
  with Some show ?thesis
    by (auto simp: ensure_entry_def)
qed

lemma note_backspace_view:
  assumes "note_backspace e (km, bc) = Inr (km', bc')"
  shows "entry_count km' k = entry_count km k
       \<and> entry_pending km' k = entry_pending km k
       \<and> fst ` set km' = fst ` set km
       \<and> (distinct (map fst km) \<longrightarrow> distinct (map fst km'))
       \<and> (map_of km c \<noteq> None \<longrightarrow> map_of km' c \<noteq> None)"
proof (cases "ke_key e = ''Backspace'' \<and> ke_type e = Down")
  case False
  with assms show ?thesis by (auto simp: note_backspace_def)
next
  case True
  with assms obtain d where d: "map_of km ''Backspace'' = Some d"
    and km': "km' = AList.update ''Backspace'' (d\<lparr>errors := Suc (errors d)\<rparr>) km"
    by (auto simp: note_backspace_def split: option.splits)
  show ?thesis
    using d update_present [OF d]
    by (auto simp: km' entry_count_def entry_pending_def update_conv' distinct_update)
qed

lemma on_down_view:
  assumes "on_down e s = Inr s'" and "ke_timestamp e \<noteq> 0"
  shows "entry_count (keyMap s') k = entry_count (keyMap s) k
       \<and> entry_pending (keyMap s') k = (if ke_code e = k then True else entry_pending (keyMap s) k)
       \<and> fst ` set (keyMap s') = fst ` set (keyMap s)
       \<and> (distinct (map fst (keyMap s)) \<longrightarrow> distinct (map fst (keyMap s')))"
proof -
  from assms(1) obtain d where d: "map_of (keyMap s) (ke_code e) = Some d"
    and km': "keyMap s' = AList.update (ke_code e) (d\<lparr>down := Some (ke_timestamp e)\<rparr>) (keyMap s)"
    by (auto simp: on_down_def split: option.splits)
  show ?thesis
    using d update_present [OF d] assms(2)
    by (auto simp: km' entry_count_def entry_pending_def truthy_def update_conv' distinct_update)
qed

lemma on_up_view:
  assumes "on_up e s = Inr s'"
  shows "entry_count (keyMap s') k
           = entry_count (keyMap s) k + (if ke_code e = k \<and> entry_pending (keyMap s) k then 1 else 0)
       \<and> entry_pending (keyMap s') k = (if ke_code e = k then False else entry_pending (keyMap s) k)
       \<and> fst ` set (keyMap s') = fst ` set (keyMap s)
       \<and> (distinct (map fst (keyMap s)) \<longrightarrow> distinct (map fst (keyMap s')))"
proof -
  from assms(1) obtain d where d: "map_of (keyMap s) (ke_code e) = Some d"
    and km': "keyMap s' =
       (if truthy (down d) then
          AList.update (ke_code e)
            (d\<lparr> totalDwell := totalDwell d + (ke_timestamp e - the (down d)),
                count := count d + 1, down := None \<rparr>) (keyMap s)
        else keyMap s)"
    by (auto simp: on_up_def Let_def split: option.splits)
  show ?thesis
  proof (cases "truthy (down d)")
    case True
    then show ?thesis
      using d update_present [OF d]
      by (auto simp: km' entry_count_def entry_pending_def truthy_def update_conv' distinct_update)
  next
    case False
    then show ?thesis
      using d by (auto simp: km' entry_count_def entry_pending_def)
  qed
qed

lemma forEach_body_counts:
  assumes "forEach_body s e = Inr s'"
    and "ke_type e = Down \<longrightarrow> ke_timestamp e \<noteq> 0"
  shows "entry_count (keyMap s') c
           = entry_count (keyMap s) c + completed_pairs c (entry_pending (keyMap s) c) [e]
       \<and> entry_pending (keyMap s') c
           = (if ke_code e = c then ke_type e = Down else entry_pending (keyMap s) c)
       \<and> fst ` set (keyMap s') = insert (ke_code e) (fst ` set (keyMap s))
       \<and> (distinct (map fst (keyMap s)) \<longrightarrow> distinct (map fst (keyMap s')))"
proof -
  from assms(1) obtain km bc where
    nb: "note_backspace e (ensure_entry (ke_code e) (keyMap s), backspaceCount s) = Inr (km, bc)"
    and st: "(case ke_type e of
                Down \<Rightarrow> on_down e (s\<lparr> keyMap := km, backspaceCount := bc \<rparr>)
              | Up \<Rightarrow> on_up e (s\<lparr> keyMap := km, backspaceCount := bc \<rparr>)) = Inr s'"
    by (auto simp: forEach_body_def Let_def split: sum.splits prod.splits)
  let ?s1 = "s\<lparr> keyMap := km, backspaceCount := bc \<rparr>"
  note ee = ensure_entry_view [of "ke_code e" "keyMap s" c]
  note nv = note_backspace_view [OF nb, of c]
  have k1: "entry_count km c = entry_count (keyMap s) c"
    "entry_pending km c = entry_pending (keyMap s) c"
    "fst ` set km = insert (ke_code e) (fst ` set (keyMap s))"
    "distinct (map fst (keyMap s)) \<longrightarrow> distinct (map fst km)"
    using ee nv by simp_all
  show ?thesis
  proof (cases "ke_type e")
    case Down
    with st have "on_down e ?s1 = Inr s'" by simp
    from on_down_view [OF this, of c] Down assms(2) k1 show ?thesis by simp
  next
    case Up
    with st have "on_up e ?s1 = Inr s'" by simp
    from on_up_view [OF this, of c] Up k1 show ?thesis by simp
  qed
qed

lemma completed_pairs_Cons:
  "completed_pairs c p (e # es)
     = completed_pairs c p [e]
       + completed_pairs c (if ke_code e = c then ke_type e = Down else p) es"
  by (cases "ke_type e") auto

lemma forEach_counts:
  assumes "forEach s ks = Inr s'"
    and "\<forall>e \<in> set ks. ke_type e = Down \<longrightarrow> ke_timestamp e \<noteq> 0"
  shows "entry_count (keyMap s') c
           = entry_count (keyMap s) c + completed_pairs c (entry_pending (keyMap s) c) ks
       \<and> fst ` set (keyMap s') = ke_code ` set ks \<union> fst ` set (keyMap s)
       \<and> (distinct (map fst (keyMap s)) \<longrightarrow> distinct (map fst (keyMap s')))"
  using assms
proof (induction ks arbitrary: s)
  case Nil
  then show ?case by simp
next
  case (Cons e ks)
  from Cons.prems(1) obtain s1 where b: "forEach_body s e = Inr s1" and r: "forEach s1 ks = Inr s'"
    by (auto split: sum.splits)
  from Cons.prems(2) have e0: "ke_type e = Down \<longrightarrow> ke_timestamp e \<noteq> 0"
    and r0: "\<forall>e \<in> set ks. ke_type e = Down \<longrightarrow> ke_timestamp e \<noteq> 0" by simp_all
  note bc = forEach_body_counts [OF b e0, of c]
  note ih = Cons.IH [OF r r0]
  have "entry_count (keyMap s') c
        = entry_count (keyMap s) c + completed_pairs c (entry_pending (keyMap s) c) (e # ks)"
    using bc ih completed_pairs_Cons [of c "entry_pending (keyMap s) c" e ks] by simp
  moreover have "fst ` set (keyMap s') = ke_code ` set (e # ks) \<union> fst ` set (keyMap s)"
    using bc ih by auto
  moreover have "distinct (map fst (keyMap s)) \<longrightarrow> distinct (map fst (keyMap s'))"
    using bc ih by simp
  ultimately show ?case by simp
qed


lemma set_Object_entries: "set (Object_entries km) = set km"
  by (auto simp: Object_entries_def)

lemma length_Object_entries: "length (Object_entries km) = length km"
  by (simp add: Object_entries_def sum_length_filter_compl)

lemma completed_pairs_unreleased:
  "\<forall>e \<in> set ks. ke_code e = c \<longrightarrow> ke_type e = Down \<Longrightarrow> completed_pairs c p ks = 0"
  by (induction ks arbitrary: p) (auto split: key_type.splits)

text \<open>
  When no press has the timestamp 0 and no key code is an inherited name, the entries of
  \<open>topKeys\<close> are one per key code of the input, each with the number of completed pairs of its code as its count, and an entry
  with count 0 has average dwell 0; \<open>totalKeys\<close> counts the presses.
\<close>

lemma topKeys_counts:
  assumes "calculateMetrics ks mouse pm now1 now2 = Inr sm"
    and "\<forall>e \<in> set ks. ke_type e = Down \<longrightarrow> ke_timestamp e \<noteq> 0"
    and "\<forall>e \<in> set ks. ke_code e \<notin> set inherited_names"
  shows "(\<lambda>k. (km_key k, km_count k)) ` set (sm_topKeys sm)
           = (\<lambda>c. (display_key pm c, completed_pairs c False ks)) ` ke_code ` set ks
       \<and> length (sm_topKeys sm) = card (ke_code ` set ks)
       \<and> (\<forall>k \<in> set (sm_topKeys sm). km_count k = 0 \<longrightarrow> km_avgDwellTime k = 0)
       \<and> sm_totalKeys sm = length (filter (\<lambda>e. ke_type e = Down) ks)"
proof (cases "ks = []")
  case True
  with assms(1) show ?thesis by (auto simp: calculateMetrics_def)
next
  case False
  with assms(1) obtain s where f: "forEach init_state ks = Inr s"
    and top: "sm_topKeys sm
       = sort_key (\<lambda>k. - int (km_count k)) (map (key_metrics pm) (Object_entries (keyMap s)))"
    and tot: "sm_totalKeys sm = length (filter (\<lambda>e. ke_type e = Down) ks)"
    by (auto simp: calculateMetrics_def Let_def split: sum.splits)
  have init: "entry_count (keyMap init_state) c = 0" "\<not> entry_pending (keyMap init_state) c"
    "keyMap init_state = []" for c
    by (simp_all add: init_state_def entry_count_def entry_pending_def)
  have cnt: "entry_count (keyMap s) c = completed_pairs c False ks" for c
    using forEach_counts [OF f assms(2), of c] init by simp
  have keys: "fst ` set (keyMap s) = ke_code ` set ks"
    using forEach_counts [OF f assms(2)] init by simp
  have dist: "distinct (map fst (keyMap s))"
    using forEach_counts [OF f assms(2)] init by simp
  have entry: "count d = completed_pairs c False ks" if "(c, d) \<in> set (keyMap s)" for c d
  proof -
    from that dist have "map_of (keyMap s) c = Some d" by simp
    then show ?thesis using cnt [of c] by (simp add: entry_count_def)
  qed
  have st: "set (sm_topKeys sm) = key_metrics pm ` set (keyMap s)"
    by (simp add: top set_Object_entries)
  have a: "(\<lambda>k. (km_key k, km_count k)) ` set (sm_topKeys sm)
           = (\<lambda>c. (display_key pm c, completed_pairs c False ks)) ` ke_code ` set ks"
  proof (intro set_eqI iffI)
    fix x assume "x \<in> (\<lambda>k. (km_key k, km_count k)) ` set (sm_topKeys sm)"
    then obtain c d where cd: "(c, d) \<in> set (keyMap s)"
      and x: "x = (km_key (key_metrics pm (c, d)), km_count (key_metrics pm (c, d)))"
      unfolding st by auto
    from cd have "c \<in> ke_code ` set ks" using keys by force
    moreover have "x = (display_key pm c, completed_pairs c False ks)"
      using x entry [OF cd] by (simp add: key_metrics_def display_key_def)
    ultimately show "x \<in> (\<lambda>c. (display_key pm c, completed_pairs c False ks)) ` ke_code ` set ks"
      by blast
  next
    fix x assume "x \<in> (\<lambda>c. (display_key pm c, completed_pairs c False ks)) ` ke_code ` set ks"
    then obtain c where c: "c \<in> ke_code ` set ks"
      and x: "x = (display_key pm c, completed_pairs c False ks)" by auto
    from c keys obtain d where cd: "(c, d) \<in> set (keyMap s)" by force
    have "x = (km_key (key_metrics pm (c, d)), km_count (key_metrics pm (c, d)))"
      using x entry [OF cd] by (simp add: key_metrics_def display_key_def)
    with cd show "x \<in> (\<lambda>k. (km_key k, km_count k)) ` set (sm_topKeys sm)"
      unfolding st by blast
  qed
  have "length (sm_topKeys sm) = length (map fst (keyMap s))"
    by (simp add: top length_Object_entries)
  also have "\<dots> = card (set (map fst (keyMap s)))"
    using distinct_card [OF dist] by simp
  finally have b: "length (sm_topKeys sm) = card (ke_code ` set ks)"
    using keys by simp
  have c: "\<forall>k \<in> set (sm_topKeys sm). km_count k = 0 \<longrightarrow> km_avgDwellTime k = 0"
    unfolding st by (auto simp: key_metrics_def)
  from a b c tot show ?thesis by simp
qed

text \<open>
  Claim C10. The count of an entry of \<open>topKeys\<close> is to be the number of completed
  press and release pairs of its key code. A press at timestamp 0 that is released is a
  completed pair, and the code gives its key the count 0 (and the average dwell 0), while
  the press is counted in \<open>totalKeys\<close>: the same falsy timestamp as in claim C1. For
  every press with another timestamp the count is as the claim says (\<open>topKeys_counts\<close>).
\<close>

theorem released_press_at_zero_count_0:
  "calculateMetrics [key_event ''a'' ''KeyA'' 0 Down, key_event ''a'' ''KeyA'' 80 Up] [] False now1 now2
   = Inr \<lparr> sm_startTime = 0, sm_endTime = 80, sm_totalKeys = 1, sm_wpm = 150,
           sm_cpm = 750, sm_accuracy = Fin 100, sm_avgDwellTime = 0, sm_avgFlightTime = 0,
           sm_backspaces = 0, sm_rhythmVariance = 0,
           sm_topKeys = [key_entry ''A'' 0 0 0],
           sm_mouseMetrics = no_mouse, sm_privacyModeEnabled = False \<rparr>"
  by (simp add: metrics_eval)

section \<open>Properties of the persistence\<close>

lemma getLogs_decodable:
  "getLogs storage enabled = (if decodable storage enabled then stored_logs storage else [])"
  by (cases storage; cases "the storage"; cases enabled)
     (auto simp: getLogs_def decryptData_def decodable_def)

text \<open>
  Claim C9, amended. Every call of \<open>saveLog\<close> that returns persists the list \<open>updated\<close>,
  which \<open>getLogs\<close> reads back under the same flag: it has at most 50 entries; its first
  element is the new entry with \<open>isEncrypted\<close> set to the flag; the entries that \<open>getLogs\<close>
  read before the call follow in their prior order, cut to 49. These are the previously
  stored entries, except that a list stored in Base64 is read as empty when the flag is
  off: the decoding falls back to an empty list. The call returns whenever the flag is
  off or no entry of \<open>updated\<close> makes a character above 255 in the JSON text.
\<close>

theorem saveLog_capped:
  assumes "new = logEntry\<lparr> al_isEncrypted := Some encryptionEnabled \<rparr>"
    and "kept = (if decodable storage encryptionEnabled then stored_logs storage else [])"
    and "updated = take 50 (new # kept)"
    and "item = (if encryptionEnabled then Base64Json updated else PlainJson updated)"
  shows "(\<forall>r. saveLog logEntry encryptionEnabled storage = Inr r \<longrightarrow> r = Some item)
       \<and> (\<not> (encryptionEnabled \<and> list_ex log_wide updated) \<longrightarrow>
             saveLog logEntry encryptionEnabled storage = Inr (Some item))
       \<and> getLogs storage encryptionEnabled = kept
       \<and> getLogs (Some item) encryptionEnabled = updated
       \<and> length updated \<le> 50
       \<and> hd updated = new
       \<and> tl updated = take 49 kept"
proof -
  have k: "getLogs storage encryptionEnabled = kept"
    using assms(2) by (simp add: getLogs_decodable)
  have s: "saveLog logEntry encryptionEnabled storage
           = (if encryptionEnabled \<and> list_ex log_wide updated then Inl InvalidCharacterError
              else Inr (Some item))"
    using k assms(1,3,4) by (auto simp: saveLog_def encryptData_def Let_def)
  have a: "\<forall>r. saveLog logEntry encryptionEnabled storage = Inr r \<longrightarrow> r = Some item"
    unfolding s by (simp split: if_splits)
  have b: "\<not> (encryptionEnabled \<and> list_ex log_wide updated) \<longrightarrow>
             saveLog logEntry encryptionEnabled storage = Inr (Some item)"
    unfolding s by simp
  have g: "getLogs (Some item) encryptionEnabled = updated"
    by (simp add: assms(4) getLogs_def decryptData_def)
  have l: "length updated \<le> 50" "hd updated = new" "tl updated = take 49 kept"
    by (simp_all add: assms(3))
  from a b k g l show ?thesis by blast
qed

text \<open>
  Fifty stored entries, the oldest with a euro sign in its text, appended to with the flag
  on: the cap cuts the oldest entry off, and the call returns.
\<close>

theorem saveLog_capped_witness:
  "length (stored_logs (Some (PlainJson
      (replicate 49 (log_entry 1 [0x41] (Some False)) @ [log_entry 0 [0x20AC] (Some False)])))) = 50
 \<and> list_ex log_wide (stored_logs (Some (PlainJson
      (replicate 49 (log_entry 1 [0x41] (Some False)) @ [log_entry 0 [0x20AC] (Some False)]))))
 \<and> saveLog (log_entry 2 [0x42] None) True (Some (PlainJson
      (replicate 49 (log_entry 1 [0x41] (Some False)) @ [log_entry 0 [0x20AC] (Some False)])))
     = Inr (Some (Base64Json
         (log_entry 2 [0x42] (Some True) # replicate 49 (log_entry 1 [0x41] (Some False)))))
 \<and> getLogs (Some (Base64Json
         (log_entry 2 [0x42] (Some True) # replicate 49 (log_entry 1 [0x41] (Some False))))) True
     = log_entry 2 [0x42] (Some True) # replicate 49 (log_entry 1 [0x41] (Some False))
 \<and> length (log_entry 2 [0x42] (Some True) # replicate 49 (log_entry 1 [0x41] (Some False))) = 50"
proof -
  let ?e1 = "log_entry 1 [0x41] (Some False)"
  let ?w = "log_entry 0 [0x20AC] (Some False)"
  let ?old = "Some (PlainJson (replicate 49 ?e1 @ [?w]))"
  let ?new = "log_entry 2 [0x42] (Some True)"
  let ?upd = "?new # replicate 49 ?e1"
  have wide: "log_wide ?w" and narrow: "\<not> log_wide ?e1" "\<not> log_wide ?new"
    by (simp_all add: log_entry_def log_wide_def is_high_surrogate_def is_low_surrogate_def)
  have n: "?new = (log_entry 2 [0x42] None)\<lparr> al_isEncrypted := Some True \<rparr>"
    by (simp add: log_entry_def)
  have k: "replicate 49 ?e1 @ [?w] = (if decodable ?old True then stored_logs ?old else [])"
    by (simp add: decodable_def)
  have u: "?upd = take 50 (?new # (replicate 49 ?e1 @ [?w]))"
    by simp
  have i: "Base64Json ?upd = (if True then Base64Json ?upd else PlainJson ?upd)"
    by simp
  have ok: "\<not> (True \<and> list_ex log_wide ?upd)"
    using narrow by (simp add: list_ex_iff)
  from saveLog_capped [OF n k u i] ok
  have "saveLog (log_entry 2 [0x42] None) True ?old = Inr (Some (Base64Json ?upd))"
    and "getLogs (Some (Base64Json ?upd)) True = ?upd"
    by blast+
  moreover have "list_ex log_wide (stored_logs ?old)"
    using wide by (simp add: list_ex_iff)
  ultimately show ?thesis by simp
qed

text \<open>
  The claim as stated fails when the stored list is in Base64 and the flag is off: the
  stored entry is not read, and only the new entry is persisted.
\<close>

theorem saveLog_mode_switch_counterexample:
  "saveLog (log_entry 2 [0x42] None) False (Some (Base64Json [log_entry 1 [0x41] (Some True)]))
   = Inr (Some (PlainJson [log_entry 2 [0x42] (Some False)]))"
  by (simp add: saveLog_def getLogs_def decryptData_def encryptData_def log_entry_def Let_def)

subsection \<open>The first session of a profile\<close>

lemma floor_half: "\<lfloor>real_of_int k + 1 / 2\<rfloor> = k"
  by linarith

lemma toFixed_exact: "toFixed d (real_of_int k / 10 ^ d) = real_of_int k / 10 ^ d"
proof -
  have "\<bar>real_of_int k / 10 ^ d\<bar> * 10 ^ d = real_of_int \<bar>k\<bar>"
    by (simp add: abs_divide)
  then have "\<lfloor>\<bar>real_of_int k / 10 ^ d\<bar> * 10 ^ d + 1 / 2\<rfloor> = \<bar>k\<bar>"
    using floor_half [of "\<bar>k\<bar>"] by simp
  moreover have "sgn (real_of_int k / 10 ^ d) = real_of_int (sgn k)"
    by (cases "k < 0"; cases "k = 0")
       (simp_all add: sgn_if divide_less_0_iff zero_less_divide_iff)
  moreover have "real_of_int (sgn k) * real_of_int \<bar>k\<bar> = real_of_int k"
    by (simp add: sgn_if)
  ultimately show ?thesis
    by (simp add: toFixed_def)
qed

lemma first_accuracy:
  "js_div (js_add (js_mul (json_number a) (Fin 0)) acc) (Fin 1) = acc"
  by (cases a; cases acc) (simp_all add: signed_inf_def)

text \<open>
  Claim C8, amended. When \<open>updateProfile\<close> runs with no stored baseline, or with a stored
  baseline whose \<open>totalSessions\<close> is 0, \<open>totalSessions\<close> becomes 1 and each running average
  of the returned profile is the session's value rounded to two decimal places
  (\<open>avgWpm\<close>, \<open>avgAccuracy\<close>) or four (\<open>avgMouseVelocity\<close>), so it is exactly the session's
  value when that value has no further decimals. \<open>avgFlightTime\<close> is the session's rounded
  value when the session's value is positive; otherwise the baseline's value stays,
  rounded.
\<close>

theorem first_session_profile:
  assumes "storage = None \<or> (\<exists>p. storage = Some p \<and> up_totalSessions p = 0)"
    and "u = updateProfile storage metrics now1 now2"
    and "base = (case storage of None \<Rightarrow> 0 | Some p \<Rightarrow> up_avgFlightTime p)"
  shows "up_avgWpm u = toFixed 2 (sm_wpm metrics)
       \<and> up_avgAccuracy u = js_toFixed 2 (sm_accuracy metrics)
       \<and> up_avgMouseVelocity u = toFixed 4 (mm_avgVelocity (sm_mouseMetrics metrics))
       \<and> up_avgFlightTime u
           = toFixed 2 (if 0 < sm_avgFlightTime metrics then sm_avgFlightTime metrics else base)
       \<and> up_totalSessions u = 1
       \<and> (\<forall>k. sm_wpm metrics = real_of_int k / 10 ^ 2 \<longrightarrow> up_avgWpm u = sm_wpm metrics)
       \<and> (\<forall>k. sm_accuracy metrics = Fin (real_of_int k / 10 ^ 2) \<longrightarrow>
             up_avgAccuracy u = sm_accuracy metrics)
       \<and> (\<forall>k. mm_avgVelocity (sm_mouseMetrics metrics) = real_of_int k / 10 ^ 4 \<longrightarrow>
             up_avgMouseVelocity u = mm_avgVelocity (sm_mouseMetrics metrics))
       \<and> (\<forall>k. 0 < sm_avgFlightTime metrics \<and> sm_avgFlightTime metrics = real_of_int k / 10 ^ 2 \<longrightarrow>
             up_avgFlightTime u = sm_avgFlightTime metrics)"
proof -
  have acc100: "js_div (js_add (js_mul (Fin 100) (Fin 0)) acc) (Fin 1) = acc" for acc
    using first_accuracy [of "Fin 100" acc] by simp
  have main: "up_avgWpm u = toFixed 2 (sm_wpm metrics)
       \<and> up_avgAccuracy u = js_toFixed 2 (sm_accuracy metrics)
       \<and> up_avgMouseVelocity u = toFixed 4 (mm_avgVelocity (sm_mouseMetrics metrics))
       \<and> up_avgFlightTime u
           = toFixed 2 (if 0 < sm_avgFlightTime metrics then sm_avgFlightTime metrics else base)
       \<and> up_totalSessions u = 1"
    using assms(1)
  proof
    assume "storage = None"
    then show ?thesis using assms(2,3) acc100
      by (simp add: updateProfile_def getProfile_def Let_def)
  next
    assume "\<exists>p. storage = Some p \<and> up_totalSessions p = 0"
    then obtain p where "storage = Some p" "up_totalSessions p = 0" by blast
    then show ?thesis using assms(2,3) first_accuracy
      by (simp add: updateProfile_def getProfile_def Let_def)
  qed
  have a: "up_avgWpm u = sm_wpm metrics" if e: "sm_wpm metrics = real_of_int k / 10 ^ 2" for k
  proof -
    have "toFixed 2 (sm_wpm metrics) = sm_wpm metrics"
      unfolding e by (rule toFixed_exact)
    with main show ?thesis by simp
  qed
  have b: "up_avgAccuracy u = sm_accuracy metrics"
    if e: "sm_accuracy metrics = Fin (real_of_int k / 10 ^ 2)" for k
  proof -
    have "js_toFixed 2 (sm_accuracy metrics) = sm_accuracy metrics"
      unfolding e using toFixed_exact [of 2 k] by simp
    with main show ?thesis by simp
  qed
  have c: "up_avgMouseVelocity u = mm_avgVelocity (sm_mouseMetrics metrics)"
    if e: "mm_avgVelocity (sm_mouseMetrics metrics) = real_of_int k / 10 ^ 4" for k
  proof -
    have "toFixed 4 (mm_avgVelocity (sm_mouseMetrics metrics)) = mm_avgVelocity (sm_mouseMetrics metrics)"
      unfolding e by (rule toFixed_exact)
    with main show ?thesis by simp
  qed
  have d: "up_avgFlightTime u = sm_avgFlightTime metrics"
    if e: "0 < sm_avgFlightTime metrics \<and> sm_avgFlightTime metrics = real_of_int k / 10 ^ 2" for k
  proof -
    from e have e1: "0 < sm_avgFlightTime metrics"
      and e2: "sm_avgFlightTime metrics = real_of_int k / 10 ^ 2" by simp_all
    have "toFixed 2 (sm_avgFlightTime metrics) = sm_avgFlightTime metrics"
      unfolding e2 by (rule toFixed_exact)
    with main e1 show ?thesis by simp
  qed
  from main a b c d show ?thesis by blast
qed

text \<open>A first session whose values have two decimals at most is stored as it is.\<close>

theorem first_session_profile_witness:
  "up_avgWpm (updateProfile None (session (11429 / 100) (Fin 100) 70 (1 / 2)) 0 1) = 11429 / 100
 \<and> up_avgAccuracy (updateProfile None (session (11429 / 100) (Fin 100) 70 (1 / 2)) 0 1) = Fin 100
 \<and> up_avgMouseVelocity (updateProfile None (session (11429 / 100) (Fin 100) 70 (1 / 2)) 0 1) = 1 / 2
 \<and> up_avgFlightTime (updateProfile None (session (11429 / 100) (Fin 100) 70 (1 / 2)) 0 1) = 70
 \<and> up_totalSessions (updateProfile None (session (11429 / 100) (Fin 100) 70 (1 / 2)) 0 1) = 1"
proof -
  let ?m = "session (11429 / 100) (Fin 100) 70 (1 / 2)"
  have s: "(None :: UserProfile option) = None \<or> (\<exists>p. None = Some p \<and> up_totalSessions p = 0)"
    by simp
  have w: "sm_wpm ?m = real_of_int 11429 / 10 ^ 2"
    and a: "sm_accuracy ?m = Fin (real_of_int 10000 / 10 ^ 2)"
    and v: "mm_avgVelocity (sm_mouseMetrics ?m) = real_of_int 5000 / 10 ^ 4"
    and f: "0 < sm_avgFlightTime ?m \<and> sm_avgFlightTime ?m = real_of_int 7000 / 10 ^ 2"
    by (simp_all add: session_def no_mouse_def)
  from first_session_profile [OF s refl refl, of ?m 0 1] w a v f
  have "up_avgWpm (updateProfile None ?m 0 1) = sm_wpm ?m"
    and "up_avgAccuracy (updateProfile None ?m 0 1) = sm_accuracy ?m"
    and "up_avgMouseVelocity (updateProfile None ?m 0 1) = mm_avgVelocity (sm_mouseMetrics ?m)"
    and "up_avgFlightTime (updateProfile None ?m 0 1) = sm_avgFlightTime ?m"
    and "up_totalSessions (updateProfile None ?m 0 1) = 1"
    by blast+
  then show ?thesis by (simp add: session_def no_mouse_def)
qed

text \<open>
  The claim as stated fails for the session of claim C1, whose typing speed is 800/7 words
  per minute: the stored average is 114.29.
\<close>

theorem first_session_rounded_counterexample:
  "up_avgWpm (updateProfile None (session (800 / 7) (Fin 100) 70 0) 0 0) = 11429 / 100
 \<and> sm_wpm (session (800 / 7) (Fin 100) 70 0) = 800 / 7
 \<and> up_avgWpm (updateProfile None (session (800 / 7) (Fin 100) 70 0) 0 0)
     \<noteq> sm_wpm (session (800 / 7) (Fin 100) 70 0)"
  by (simp add: updateProfile_def getProfile_def session_def no_mouse_def toFixed_def Let_def)

section \<open>Properties of the transport\<close>

lemma flush_loop_fields:
  "shouldReconnect (flush_loop bad items s) = shouldReconnect s
 \<and> reconnects (flush_loop bad items s) = reconnects s
 \<and> reconnectAttempts (flush_loop bad items s) = reconnectAttempts s
 \<and> timers (flush_loop bad items s) = timers s
 \<and> sockets (flush_loop bad items s) = sockets s"
  by (induction items arbitrary: s) (auto simp: ready_def split: option.splits)

lemma scheduleReconnect_fields:
  "shouldReconnect (scheduleReconnect rnd s) = shouldReconnect s
 \<and> reconnects (scheduleReconnect rnd s) = reconnects s
 \<and> sockets (scheduleReconnect rnd s) = sockets s"
  by (simp add: scheduleReconnect_def Let_def)

lemma connect_fields:
  "shouldReconnect (connect throws rnd s) = shouldReconnect s
 \<and> reconnects (connect throws rnd s) = reconnects s"
  by (simp add: connect_def onStatus_def scheduleReconnect_def Let_def)

lemma step_keeps_stopped:
  assumes "\<not> shouldReconnect s"
  shows "\<not> shouldReconnect (step bad s e) \<and> reconnects (step bad s e) = reconnects s"
proof (cases e)
  case (Sock_open i)
  then show ?thesis using assms
    by (simp add: onopen_def flushQueue_def flush_loop_fields onStatus_def)
next
  case (Call_connect throws rnd)
  then show ?thesis using assms by (simp add: connect_fields)
qed (use assms in \<open>auto simp: disconnect_def onStatus_def send_def onmessage_def onerror_def
       onclose_def timer_callback_def Let_def split: option.splits inbound.splits\<close>)

lemma map_fst_update_same: "j < length xs \<Longrightarrow> (map fst xs)[j := fst (xs ! j)] = map fst xs"
  by (metis list_update_id nth_map)

lemma step_stopped_no_new_timer:
  assumes "\<not> shouldReconnect s" and "\<not> is_connect_call e"
  shows "map fst (timers (step bad s e)) = map fst (timers s)
       \<and> length (sockets (step bad s e)) = length (sockets s)"
proof (cases e)
  case (Sock_open i)
  then show ?thesis
    by (simp add: onopen_def flushQueue_def flush_loop_fields onStatus_def)
next
  case (Timer_fire j throws rnd)
  then show ?thesis using assms
    by (auto simp: timer_callback_def map_update map_fst_update_same)
next
  case Call_disconnect
  then show ?thesis
    by (simp add: disconnect_def onStatus_def close_socket_def Let_def split: option.splits)
qed (use assms in \<open>auto simp: onStatus_def send_def onmessage_def onerror_def
       onclose_def Let_def split: option.splits inbound.splits\<close>)

lemma run_snoc: "run bad s (es @ [e]) = step bad (run bad s es) e"
  by (simp add: run_def)

lemma run_keeps_stopped:
  "\<not> shouldReconnect s \<Longrightarrow>
     \<not> shouldReconnect (run bad s es) \<and> reconnects (run bad s es) = reconnects s"
proof (induction es rule: rev_induct)
  case Nil
  then show ?case by (simp add: run_def)
next
  case (snoc e es)
  then show ?case using step_keeps_stopped [of "run bad s es" bad e]
    by (simp add: run_snoc)
qed

lemma run_stopped_no_new_timer:
  "\<not> shouldReconnect s \<Longrightarrow> list_all (\<lambda>e. \<not> is_connect_call e) es \<Longrightarrow>
     map fst (timers (run bad s es)) = map fst (timers s)
   \<and> length (sockets (run bad s es)) = length (sockets s)"
proof (induction es rule: rev_induct)
  case Nil
  then show ?case by (simp add: run_def)
next
  case (snoc e es)
  then have "\<not> shouldReconnect (run bad s es)" using run_keeps_stopped by blast
  from step_stopped_no_new_timer [OF this, of e bad] snoc show ?case
    by (simp add: run_snoc)
qed

lemma disconnect_stops: "\<not> shouldReconnect (disconnect s)"
  by (simp add: disconnect_def onStatus_def Let_def split: option.splits)

text \<open>
  Claim C6. After \<open>disconnect()\<close>, whatever happens next (method calls, socket events,
  timers that were already scheduled), the callback of a backoff timer never calls
  \<open>connect()\<close>: the count of such calls stays what it was, and \<open>shouldReconnect\<close> stays
  false. As long as the owner does not call \<open>connect()\<close> itself, no closure and no error
  schedules a timer, and no socket is created.
\<close>

theorem no_reconnect_after_disconnect:
  "\<not> shouldReconnect (run bad (disconnect s) es)
 \<and> reconnects (run bad (disconnect s) es) = reconnects (disconnect s)
 \<and> (list_all (\<lambda>e. \<not> is_connect_call e) es \<longrightarrow>
      map fst (timers (run bad (disconnect s) es)) = map fst (timers (disconnect s))
    \<and> length (sockets (run bad (disconnect s) es)) = length (sockets (disconnect s)))"
  using run_keeps_stopped [OF disconnect_stops] run_stopped_no_new_timer [OF disconnect_stops]
  by blast

text \<open>
  A client with a pending timer and an open socket is disconnected; then the socket
  reports an error and closes, and the timer fires.
\<close>

theorem no_reconnect_after_disconnect_witness:
  "list_all (\<lambda>e. \<not> is_connect_call e)
     [Sock_error 0, Sock_close 0 (1 / 2), Timer_fire 0 False (1 / 2) :: (nat, unit) event]
 \<and> timers (disconnect (run (\<lambda>p. False) (new_client :: (nat, unit) WSClient)
       [Call_connect True (1 / 2), Call_connect False (1 / 2), Sock_open 0])) = [(1125, True)]
 \<and> \<not> shouldReconnect (run (\<lambda>p. False)
       (disconnect (run (\<lambda>p. False) (new_client :: (nat, unit) WSClient)
          [Call_connect True (1 / 2), Call_connect False (1 / 2), Sock_open 0]))
       [Sock_error 0, Sock_close 0 (1 / 2), Timer_fire 0 False (1 / 2)])
 \<and> reconnects (run (\<lambda>p. False)
       (disconnect (run (\<lambda>p. False) (new_client :: (nat, unit) WSClient)
          [Call_connect True (1 / 2), Call_connect False (1 / 2), Sock_open 0]))
       [Sock_error 0, Sock_close 0 (1 / 2), Timer_fire 0 False (1 / 2)]) = 0
 \<and> map fst (timers (run (\<lambda>p. False)
       (disconnect (run (\<lambda>p. False) (new_client :: (nat, unit) WSClient)
          [Call_connect True (1 / 2), Call_connect False (1 / 2), Sock_open 0]))
       [Sock_error 0, Sock_close 0 (1 / 2), Timer_fire 0 False (1 / 2)])) = [1125]
 \<and> length (sockets (run (\<lambda>p. False)
       (disconnect (run (\<lambda>p. False) (new_client :: (nat, unit) WSClient)
          [Call_connect True (1 / 2), Call_connect False (1 / 2), Sock_open 0]))
       [Sock_error 0, Sock_close 0 (1 / 2), Timer_fire 0 False (1 / 2)])) = 1"
proof -
  let ?es = "[Sock_error 0, Sock_close 0 (1 / 2), Timer_fire 0 False (1 / 2) :: (nat, unit) event]"
  let ?s = "run (\<lambda>p. False) (new_client :: (nat, unit) WSClient)
              [Call_connect True (1 / 2), Call_connect False (1 / 2), Sock_open 0]"
  have c: "list_all (\<lambda>e. \<not> is_connect_call e) ?es" by simp
  have d: "timers (disconnect ?s) = [(1125, True)]" "reconnects (disconnect ?s) = 0"
    "length (sockets (disconnect ?s)) = 1"
    by (simp_all add: run_def new_client_def connect_def onStatus_def scheduleReconnect_def
          disconnect_def close_socket_def ready_def onopen_def flushQueue_def Let_def)
  from no_reconnect_after_disconnect [of "\<lambda>p. False" ?s ?es] c
  have "\<not> shouldReconnect (run (\<lambda>p. False) (disconnect ?s) ?es)"
    and "reconnects (run (\<lambda>p. False) (disconnect ?s) ?es) = reconnects (disconnect ?s)"
    and "map fst (timers (run (\<lambda>p. False) (disconnect ?s) ?es)) = map fst (timers (disconnect ?s))"
    and "length (sockets (run (\<lambda>p. False) (disconnect ?s) ?es)) = length (sockets (disconnect ?s))"
    by blast+
  with c d show ?thesis by simp
qed


lemma jitter_delay_ok:
  assumes "0 \<le> rnd" and "rnd < 1"
  shows "delay_ok k (min 8000 (500 * 2 ^ k) + rnd * 250)"
proof -
  have "0 \<le> rnd * 250" and "rnd * 250 \<le> 250" using assms by simp_all
  then show ?thesis by (simp add: delay_ok_def)
qed

lemma connect_sched:
  assumes "0 \<le> rnd" and "rnd < 1"
  shows "sched s (connect throws rnd s)"
  using jitter_delay_ok [OF assms, of "Suc (reconnectAttempts s)"]
  by (simp add: sched_def connect_def onStatus_def scheduleReconnect_def Let_def)

lemma step_sched:
  assumes "random_ok e" and "\<not> is_open_event e"
  shows "sched s (step bad s e)"
proof (cases e)
  case (Call_connect throws rnd)
  then show ?thesis using assms by (auto intro: connect_sched)
next
  case Call_disconnect
  then show ?thesis
    by (simp add: sched_def disconnect_def onStatus_def Let_def split: option.splits)
next
  case (Call_send p)
  then show ?thesis by (simp add: sched_def send_def split: option.splits)
next
  case (Sock_open i)
  then show ?thesis using assms by simp
next
  case (Sock_message i m)
  then show ?thesis by (simp add: sched_def onmessage_def onStatus_def split: inbound.splits)
next
  case (Sock_error i)
  then show ?thesis by (simp add: sched_def onerror_def onStatus_def)
next
  case (Sock_close i rnd)
  then have "0 \<le> rnd" "rnd < 1" using assms by simp_all
  from jitter_delay_ok [OF this, of "Suc (reconnectAttempts s)"] Sock_close show ?thesis
    by (simp add: sched_def onclose_def onStatus_def scheduleReconnect_def Let_def)
next
  case (Timer_fire j throws rnd)
  then have r: "0 \<le> rnd" "rnd < 1" using assms by simp_all
  show ?thesis
  proof (cases "j < length (timers s) \<and> snd (timers s ! j)")
    case False
    then show ?thesis using Timer_fire by (auto simp: sched_def)
  next
    case True
    define s1 where "s1 = s\<lparr> timers := (timers s)[j := (fst (timers s ! j), False)] \<rparr>"
    have eq: "map fst (timers s1) = map fst (timers s)" "reconnectAttempts s1 = reconnectAttempts s"
      using True by (simp_all add: s1_def map_update map_fst_update_same)
    have "sched s1 (timer_callback throws rnd s1)"
      using connect_sched [OF r, of "s1\<lparr> reconnects := reconnects s1 + 1 \<rparr>" throws]
      by (simp add: timer_callback_def sched_def)
    then have "sched s (timer_callback throws rnd s1)"
      using eq by (simp add: sched_def)
    then show ?thesis using True Timer_fire by (simp add: s1_def)
  qed
qed

lemma run_sched:
  assumes "list_all random_ok es" and "list_all (\<lambda>e. \<not> is_open_event e) es"
  shows "\<exists>new. map fst (timers (run bad s es)) = map fst (timers s) @ new
           \<and> reconnectAttempts (run bad s es) = reconnectAttempts s + length new
           \<and> (\<forall>j < length new. delay_ok (reconnectAttempts s + j + 1) (new ! j))"
  using assms
proof (induction es rule: rev_induct)
  case Nil
  then show ?case by (simp add: run_def)
next
  case (snoc e es)
  then obtain new where n: "map fst (timers (run bad s es)) = map fst (timers s) @ new"
      "reconnectAttempts (run bad s es) = reconnectAttempts s + length new"
      "\<forall>j < length new. delay_ok (reconnectAttempts s + j + 1) (new ! j)"
    by auto
  from snoc.prems have "sched (run bad s es) (step bad (run bad s es) e)"
    by (simp add: step_sched)
  then consider
      "map fst (timers (run bad s (es @ [e]))) = map fst (timers (run bad s es))"
      "reconnectAttempts (run bad s (es @ [e])) = reconnectAttempts (run bad s es)"
    | d where "map fst (timers (run bad s (es @ [e]))) = map fst (timers (run bad s es)) @ [d]"
      "reconnectAttempts (run bad s (es @ [e])) = reconnectAttempts (run bad s es) + 1"
      "delay_ok (reconnectAttempts (run bad s es) + 1) d"
    by (auto simp: sched_def run_snoc)
  then show ?case
  proof cases
    case 1
    with n show ?thesis by auto
  next
    case 2
    have "\<forall>j < length (new @ [d]). delay_ok (reconnectAttempts s + j + 1) ((new @ [d]) ! j)"
      using n(2,3) 2(3) by (auto simp: nth_append less_Suc_eq)
    with n 2 show ?thesis
      by (intro exI [of _ "new @ [d]"]) simp
  qed
qed

lemma step_counter:
  "reconnectAttempts s \<le> reconnectAttempts (step bad s e)
 \<or> (is_open_event e \<and> reconnectAttempts (step bad s e) = 0)"
proof (cases e)
  case (Sock_open i)
  then show ?thesis
    by (simp add: onopen_def flushQueue_def flush_loop_fields onStatus_def)
next
  case (Timer_fire j throws rnd)
  then show ?thesis
    by (simp add: timer_callback_def connect_def onStatus_def scheduleReconnect_def Let_def)
qed (auto simp: connect_def disconnect_def onStatus_def send_def onmessage_def onerror_def
       onclose_def scheduleReconnect_def Let_def split: option.splits inbound.splits)

lemma open_resets:
  "ready t i = Some CONNECTING \<Longrightarrow> reconnectAttempts (step bad t (Sock_open i)) = 0"
  by (simp add: onopen_def flushQueue_def flush_loop_fields onStatus_def)

lemma close_increments:
  assumes "shouldReconnect t" and "ready t i \<noteq> None" and "ready t i \<noteq> Some CLOSED"
  shows "reconnectAttempts (step bad t (Sock_close i rnd)) = reconnectAttempts t + 1"
  using assms
  by (simp add: ready_def onclose_def onStatus_def scheduleReconnect_def Let_def split: if_splits)

lemma delays_from_zero:
  fixes s :: "('m, 'r) WSClient"
  assumes "list_all random_ok es" and "list_all (\<lambda>e. \<not> is_open_event e) es"
    and "reconnectAttempts s = 0"
  shows "take (length (timers s)) (map fst (timers (run bad s es))) = map fst (timers s)
       \<and> length (drop (length (timers s)) (timers (run bad s es))) = reconnectAttempts (run bad s es)
       \<and> (\<forall>k. 1 \<le> k \<and> k \<le> reconnectAttempts (run bad s es) \<longrightarrow>
             delay_ok k (fst (timers (run bad s es) ! (length (timers s) + k - 1))))"
proof -
  from run_sched [OF assms(1,2), of bad s] assms(3)
  obtain new where n: "map fst (timers (run bad s es)) = map fst (timers s) @ new"
      "reconnectAttempts (run bad s es) = length new"
      "\<forall>j < length new. delay_ok (j + 1) (new ! j)"
    by auto
  have len: "length (timers (run bad s es)) = length (timers s) + length new"
    using n(1) by (metis length_append length_map)
  have a: "take (length (timers s)) (map fst (timers (run bad s es))) = map fst (timers s)"
    using n(1) by simp
  have b: "length (drop (length (timers s)) (timers (run bad s es))) = reconnectAttempts (run bad s es)"
    using len n(2) by simp
  have c: "delay_ok k (fst (timers (run bad s es) ! (length (timers s) + k - 1)))"
    if "1 \<le> k \<and> k \<le> reconnectAttempts (run bad s es)" for k
  proof -
    from that have k1: "1 \<le> k" and k2: "k \<le> reconnectAttempts (run bad s es)" by simp_all
    from k1 k2 n(2) have k: "k - 1 < length new" by simp
    have "length (timers s) + k - 1 < length (timers (run bad s es))"
      using k1 k2 len n(2) by simp
    then have "fst (timers (run bad s es) ! (length (timers s) + k - 1))
              = map fst (timers (run bad s es)) ! (length (timers s) + k - 1)"
      by simp
    also have "\<dots> = (map fst (timers s) @ new) ! (length (map fst (timers s)) + (k - 1))"
      using k1 by (simp add: n(1))
    also have "\<dots> = new ! (k - 1)"
      by (rule nth_append_length_plus)
    finally show ?thesis using n(3) k k1 by auto
  qed
  from a b c show ?thesis by blast
qed

text \<open>
  Claim C5. A successful open sets the attempt counter to 0, and a step that lowers the
  counter is a socket's open event. Start from a client whose counter is 0, such as the
  client right after a successful open, and let anything happen but a socket opening,
  with random numbers in \<open>[0, 1)\<close>. Then the timers scheduled since are as many as the
  counter says, and the delay of the \<open>k\<close>-th of them, for every \<open>k\<close> from 1 up to the
  counter, lies between \<open>min(8000, 500 * 2^k)\<close> and that plus 250 milliseconds. Every
  closure of a socket, while reconnection is wanted, adds one to the counter.
\<close>

theorem reconnect_delay_bounds:
  fixes s :: "('m, 'r) WSClient"
  assumes "list_all random_ok es" and "list_all (\<lambda>e. \<not> is_open_event e) es"
    and "reconnectAttempts s = 0"
  shows "take (length (timers s)) (map fst (timers (run bad s es))) = map fst (timers s)
       \<and> length (drop (length (timers s)) (timers (run bad s es))) = reconnectAttempts (run bad s es)
       \<and> (\<forall>k. 1 \<le> k \<and> k \<le> reconnectAttempts (run bad s es) \<longrightarrow>
             delay_ok k (fst (timers (run bad s es) ! (length (timers s) + k - 1))))
       \<and> (\<forall>(t :: ('m, 'r) WSClient) e. reconnectAttempts (step bad t e) < reconnectAttempts t \<longrightarrow>
             is_open_event e \<and> reconnectAttempts (step bad t e) = 0)
       \<and> (\<forall>(t :: ('m, 'r) WSClient) i. ready t i = Some CONNECTING \<longrightarrow>
             reconnectAttempts (step bad t (Sock_open i)) = 0
           \<and> (\<forall>k. 1 \<le> k \<and> k \<le> reconnectAttempts (run bad (step bad t (Sock_open i)) es) \<longrightarrow>
                 delay_ok k (fst (timers (run bad (step bad t (Sock_open i)) es)
                                   ! (length (timers (step bad t (Sock_open i))) + k - 1)))))
       \<and> (\<forall>(t :: ('m, 'r) WSClient) i rnd.
             shouldReconnect t \<and> ready t i \<noteq> None \<and> ready t i \<noteq> Some CLOSED \<longrightarrow>
             reconnectAttempts (step bad t (Sock_close i rnd)) = reconnectAttempts t + 1)"
proof -
  note z = delays_from_zero [OF assms(1,2)]
  have d: "is_open_event e \<and> reconnectAttempts (step bad t e) = 0"
    if "reconnectAttempts (step bad t e) < reconnectAttempts t" for t :: "('m, 'r) WSClient" and e
    using step_counter [of t bad e] that by auto
  have o: "reconnectAttempts (step bad t (Sock_open i)) = 0
           \<and> (\<forall>k. 1 \<le> k \<and> k \<le> reconnectAttempts (run bad (step bad t (Sock_open i)) es) \<longrightarrow>
                 delay_ok k (fst (timers (run bad (step bad t (Sock_open i)) es)
                                   ! (length (timers (step bad t (Sock_open i))) + k - 1))))"
    if "ready t i = Some CONNECTING" for t :: "('m, 'r) WSClient" and i
    using open_resets [OF that, of bad] z [of "step bad t (Sock_open i)" bad] by blast
  have c: "reconnectAttempts (step bad t (Sock_close i rnd)) = reconnectAttempts t + 1"
    if "shouldReconnect t \<and> ready t i \<noteq> None \<and> ready t i \<noteq> Some CLOSED"
    for t :: "('m, 'r) WSClient" and i rnd
    using that close_increments [of t i bad rnd] by blast
  from z [OF assms(3), of bad] d o c show ?thesis by blast
qed

text \<open>
  A socket closes (attempt 1), the timer reconnects, the new socket opens (the counter is
  0 again) and closes (attempt 1 again), and the next timer finds the constructor raising
  (attempt 2).
\<close>

theorem reconnect_delay_bounds_witness:
  "list_all random_ok [Sock_close 1 (1 / 10), Timer_fire 1 True (1 / 5) :: (nat, unit) event]
 \<and> list_all (\<lambda>e. \<not> is_open_event e)
      [Sock_close 1 (1 / 10), Timer_fire 1 True (1 / 5) :: (nat, unit) event]
 \<and> reconnectAttempts (new_client :: (nat, unit) WSClient) = 0
 \<and> reconnectAttempts (run (\<lambda>p. False) (new_client :: (nat, unit) WSClient)
      [Call_connect False 0, Sock_close 0 (1 / 2), Timer_fire 0 False 0]) = 1
 \<and> ready (run (\<lambda>p. False) (new_client :: (nat, unit) WSClient)
      [Call_connect False 0, Sock_close 0 (1 / 2), Timer_fire 0 False 0]) 1 = Some CONNECTING
 \<and> reconnectAttempts (run (\<lambda>p. False) (new_client :: (nat, unit) WSClient)
      [Call_connect False 0, Sock_close 0 (1 / 2), Timer_fire 0 False 0, Sock_open 1]) = 0
 \<and> reconnectAttempts (run (\<lambda>p. False) (new_client :: (nat, unit) WSClient)
      [Call_connect False 0, Sock_close 0 (1 / 2), Timer_fire 0 False 0, Sock_open 1,
       Sock_close 1 (1 / 10), Timer_fire 1 True (1 / 5)]) = 2
 \<and> timers (run (\<lambda>p. False) (new_client :: (nat, unit) WSClient)
      [Call_connect False 0, Sock_close 0 (1 / 2), Timer_fire 0 False 0, Sock_open 1,
       Sock_close 1 (1 / 10), Timer_fire 1 True (1 / 5)])
     = [(1125, False), (1025, False), (2050, True)]
 \<and> delay_ok 1 1125 \<and> delay_ok 1 1025 \<and> delay_ok 2 2050"
proof -
  let ?bad = "\<lambda>p :: nat. False"
  let ?n = "new_client :: (nat, unit) WSClient"
  let ?pre = "[Call_connect False 0, Sock_close 0 (1 / 2), Timer_fire 0 False 0 :: (nat, unit) event]"
  let ?es = "[Sock_close 1 (1 / 10), Timer_fire 1 True (1 / 5) :: (nat, unit) event]"
  let ?t = "run ?bad ?n ?pre"
  let ?s = "step ?bad ?t (Sock_open 1)"
  note ev = run_def new_client_def connect_def onStatus_def scheduleReconnect_def
    timer_callback_def onclose_def onopen_def flushQueue_def ready_def Let_def
  have r: "list_all random_ok ?es" by simp
  have o: "list_all (\<lambda>e. \<not> is_open_event e) ?es" by simp
  have r0: "list_all random_ok ?pre" by simp
  have o0: "list_all (\<lambda>e. \<not> is_open_event e) ?pre" by simp
  have z: "reconnectAttempts ?n = 0" by (simp add: new_client_def)
  have t1: "reconnectAttempts ?t = 1" and tt: "timers ?t = [(1125, False)]"
    and c: "ready ?t 1 = Some CONNECTING"
    by (simp_all add: ev)
  have ts: "timers ?s = [(1125, False)]"
    and tf: "timers (run ?bad ?s ?es) = [(1125, False), (1025, False), (2050, True)]"
    and n2: "reconnectAttempts (run ?bad ?s ?es) = 2"
    by (simp_all add: ev)
  from reconnect_delay_bounds [OF r0 o0 z, of ?bad]
  have q0: "\<forall>k. 1 \<le> k \<and> k \<le> reconnectAttempts ?t \<longrightarrow>
          delay_ok k (fst (timers ?t ! (length (timers ?n) + k - 1)))"
    by blast
  have first: "delay_ok 1 (fst (timers ?t ! (length (timers ?n) + 1 - 1)))"
    using q0 [rule_format, of 1] t1 by simp
  from reconnect_delay_bounds [OF r o z, of ?bad] c
  have s0: "reconnectAttempts ?s = 0"
    and q: "\<forall>k. 1 \<le> k \<and> k \<le> reconnectAttempts (run ?bad ?s ?es) \<longrightarrow>
          delay_ok k (fst (timers (run ?bad ?s ?es) ! (length (timers ?s) + k - 1)))"
    by blast+
  have "delay_ok 1 (fst (timers (run ?bad ?s ?es) ! (length (timers ?s) + 1 - 1)))"
    using q [rule_format, of 1] n2 by simp
  moreover
  have "delay_ok 2 (fst (timers (run ?bad ?s ?es) ! (length (timers ?s) + 2 - 1)))"
    using q [rule_format, of 2] n2 by simp
  ultimately have d: "delay_ok 1 1025" "delay_ok 2 2050"
    unfolding tf ts by simp_all
  from first have d0: "delay_ok 1 1125"
    unfolding tt by (simp add: new_client_def)
  have e1: "run ?bad ?n (?pre @ [Sock_open 1]) = ?s"
    and e2: "run ?bad ?n (?pre @ Sock_open 1 # ?es) = run ?bad ?s ?es"
    by (simp_all add: run_def)
  from r o z t1 c s0 n2 tf d d0 e1 e2 show ?thesis by simp
qed

subsection \<open>Flushing the queue\<close>

text \<open>On an open socket, the flush sends the items up to the first one that fails and
  keeps that one alone: the items after it are in neither list.\<close>

lemma flush_loop_open:
  assumes "ws s = Some i" and "ready s i = Some OPEN"
  shows "sendQueue (flush_loop bad items s) = sendQueue s @ take 1 (dropWhile (\<lambda>p. \<not> bad p) items)
       \<and> transmitted (flush_loop bad items s)
           = transmitted s @ map (Pair i) (takeWhile (\<lambda>p. \<not> bad p) items)"
  using assms
proof (induction items arbitrary: s)
  case Nil
  then show ?case by simp
next
  case (Cons p items)
  show ?case
  proof (cases "bad p")
    case True
    then show ?thesis using Cons.prems by simp
  next
    case False
    let ?s1 = "s\<lparr> transmitted := transmitted s @ [(i, p)] \<rparr>"
    have "ws ?s1 = Some i" "ready ?s1 i = Some OPEN"
      using Cons.prems by (simp_all add: ready_def split: if_splits)
    from Cons.IH [OF this] False Cons.prems show ?thesis by simp
  qed
qed

text \<open>
  Claim C4. When the queue is flushed on reaching the open state, every queued message is
  to be sent in order; after a failed send that message is to be at the front of the
  queue, the messages after it are to stay queued in their order, and nothing is to be
  dropped. The code empties the queue before the loop, puts the failed message back and
  leaves the loop: with the messages 1, 2, 3 queued while connecting and the send of 2
  failing, message 1 is sent, the queue holds message 2 alone, and message 3 is neither
  sent nor queued.
\<close>

theorem flush_drops_messages_after_failure:
  "sendQueue (run (\<lambda>p. p = 2) (new_client :: (nat, unit) WSClient)
     [Call_connect False 0, Call_send 1, Call_send 2, Call_send 3]) = [1, 2, 3]
 \<and> sendQueue (run (\<lambda>p. p = 2) (new_client :: (nat, unit) WSClient)
     [Call_connect False 0, Call_send 1, Call_send 2, Call_send 3, Sock_open 0]) = [2]
 \<and> transmitted (run (\<lambda>p. p = 2) (new_client :: (nat, unit) WSClient)
     [Call_connect False 0, Call_send 1, Call_send 2, Call_send 3, Sock_open 0]) = [(0, 1)]"
  by (simp add: run_def new_client_def connect_def onStatus_def send_def ready_def onopen_def
        flushQueue_def Let_def)

end
